theory Spec2Isabelle
  imports Complex_Main "HOL-Library.Word"
begin

section \<open>JavaScript values\<close>

text \<open>
  A JavaScript string is a sequence of UTF-16 code units; \<open>length\<close> and \<open>slice\<close> count
  code units.  String literals of the source are ASCII and are written \<open>js ''...''\<close>.
\<close>

type_synonym jsstring = "16 word list"

definition js :: "string \<Rightarrow> jsstring" where
  "js s = map of_char s"

text \<open>
  Numbers are IEEE doubles.  Every finite double is a rational; the three other values are
  kept apart.  Negative zero behaves as zero in every operation the program applies.
\<close>

datatype jsnum = Fin rat | PosInf | NegInf | NaN

text \<open>
  Primitive values: what a column of a result row holds, and the leaves of a JSON document.
\<close>

datatype jsprim = Undefined | Null | Bool bool | Num jsnum | Str jsstring

text \<open>
  The values \<open>JSON.parse\<close> builds: primitives, arrays, and plain objects given by their own
  properties (the first binding of a key is the property's value).
\<close>

datatype jsval = Prim jsprim | Arr "jsval list" | Obj "(jsstring \<times> jsval) list"

text \<open>
  What the program takes from the JavaScript runtime and the machine it runs on:
  the local time zone adjustment \<open>LocalTZA(t, isUTC)\<close> of ECMA-262 in milliseconds,
  \<open>Date.parse\<close> (\<open>None\<close> is NaN), \<open>Number::toString\<close>, and the message texts of the
  \<open>TypeError\<close> of a failed conversion to a primitive and of the \<open>RangeError\<close> of
  \<open>toISOString\<close> on an invalid date.
\<close>

record host =
  LocalTZA :: "int \<Rightarrow> bool \<Rightarrow> int"
  Date_parse :: "jsstring \<Rightarrow> int option"
  Number_toString :: "jsnum \<Rightarrow> jsstring"
  msgNotPrimitive :: jsstring
  msgInvalidTime :: jsstring

text \<open>An exception is represented by its \<open>message\<close>, the only part the program reads.\<close>

type_synonym 'a result = "jsstring + 'a"

definition bindE :: "'a result \<Rightarrow> ('a \<Rightarrow> 'b result) \<Rightarrow> 'b result" where
  "bindE r f = (case r of Inl m \<Rightarrow> Inl m | Inr x \<Rightarrow> f x)"

fun truthyNum :: "jsnum \<Rightarrow> bool" where
  "truthyNum (Fin q) = (q \<noteq> 0)"
| "truthyNum PosInf = True"
| "truthyNum NegInf = True"
| "truthyNum NaN = False"

fun truthyPrim :: "jsprim \<Rightarrow> bool" where
  "truthyPrim Undefined = False"
| "truthyPrim Null = False"
| "truthyPrim (Bool b) = b"
| "truthyPrim (Num n) = truthyNum n"
| "truthyPrim (Str s) = (s \<noteq> [])"

fun truthy :: "jsval \<Rightarrow> bool" where
  "truthy (Prim p) = truthyPrim p"
| "truthy (Arr xs) = True"
| "truthy (Obj kvs) = True"

fun nullish :: "jsval \<Rightarrow> bool" where
  "nullish (Prim Undefined) = True"
| "nullish (Prim Null) = True"
| "nullish v = False"

text \<open>\<open>ToString\<close> on a primitive, as a template literal and \<open>String(v)\<close> apply it.\<close>

fun primToString :: "host \<Rightarrow> jsprim \<Rightarrow> jsstring" where
  "primToString h Undefined = js ''undefined''"
| "primToString h Null = js ''null''"
| "primToString h (Bool b) = (if b then js ''true'' else js ''false'')"
| "primToString h (Num n) = Number_toString h n"
| "primToString h (Str s) = s"

text \<open>
  \<open>ToString\<close> on a parsed JSON value.  An array is joined with commas, \<open>null\<close> elements giving
  the empty string.  A plain object has no callable \<open>toString\<close> of its own: when it has an
  own property of that name the inherited method is hidden and the conversion throws a
  \<open>TypeError\<close>; otherwise the inherited method answers \<open>[object Object]\<close>.  The same holds
  for the conversion to a primitive that \<open>new Date(v)\<close> performs.
\<close>

fun ToString :: "host \<Rightarrow> jsval \<Rightarrow> jsstring result"
  and joinElems :: "host \<Rightarrow> jsval list \<Rightarrow> jsstring result" where
  "ToString h (Prim p) = Inr (primToString h p)"
| "ToString h (Arr xs) = joinElems h xs"
| "ToString h (Obj kvs) =
     (if js ''toString'' \<in> fst ` set kvs then Inl (msgNotPrimitive h)
      else Inr (js ''[object Object]''))"
| "joinElems h [] = Inr []"
| "joinElems h (x # xs) =
     bindE (if nullish x then Inr [] else ToString h x) (\<lambda>s.
       if xs = [] then Inr s
       else bindE (joinElems h xs) (\<lambda>r. Inr (s @ js '','' @ r)))"

section \<open>String clamping\<close>

text \<open>
  \<open>str.slice(0, n)\<close>: a negative end counts from the end of the string.
\<close>

definition slice0 :: "jsstring \<Rightarrow> int \<Rightarrow> jsstring" where
  "slice0 str n =
     (if n < 0 then take (nat (int (length str) + n)) str else take (nat n) str)"

text \<open>
  \<open>clampStr(value, maxLen)\<close>; \<open>None\<close> is \<open>null\<close>.
\<close>

definition clampStr :: "host \<Rightarrow> jsval \<Rightarrow> int \<Rightarrow> jsstring option result" where
  "clampStr h v maxLen =
     (if v = Prim Null \<or> v = Prim Undefined then Inr None
      else bindE (ToString h v) (\<lambda>str.
        Inr (Some (if int (length str) > maxLen then slice0 str maxLen else str))))"

section \<open>Dates\<close>

text \<open>
  A \<open>Date\<close> object holds a time value: milliseconds since the epoch, or NaN (an invalid
  date).  All time values and the sums formed below stay under \<open>2^53\<close>, where double
  arithmetic on integers is exact, so they are integers here.
\<close>

datatype jsdate = Date int | InvalidDate

definition msPerSecond :: int where "msPerSecond = 1000"
definition msPerMinute :: int where "msPerMinute = 60000"
definition msPerHour :: int where "msPerHour = 3600000"
definition msPerDay :: int where "msPerDay = 86400000"

definition TimeClip :: "int \<Rightarrow> jsdate" where
  "TimeClip t = (if \<bar>t\<bar> > 8640000000000000 then InvalidDate else Date t)"

definition Day :: "int \<Rightarrow> int" where "Day t = t div msPerDay"
definition HourFromTime :: "int \<Rightarrow> int" where "HourFromTime t = (t div msPerHour) mod 24"
definition MinFromTime :: "int \<Rightarrow> int" where "MinFromTime t = (t div msPerMinute) mod 60"
definition SecFromTime :: "int \<Rightarrow> int" where "SecFromTime t = (t div msPerSecond) mod 60"
definition msFromTime :: "int \<Rightarrow> int" where "msFromTime t = t mod msPerSecond"

definition MakeTime :: "int \<Rightarrow> int \<Rightarrow> int \<Rightarrow> int \<Rightarrow> int" where
  "MakeTime hour minute sec ms =
     hour * msPerHour + minute * msPerMinute + sec * msPerSecond + ms"

definition MakeDate :: "int \<Rightarrow> int \<Rightarrow> int" where
  "MakeDate day time = day * msPerDay + time"

definition LocalTime :: "host \<Rightarrow> int \<Rightarrow> int" where
  "LocalTime h t = t + LocalTZA h t True"

definition UTC :: "host \<Rightarrow> int \<Rightarrow> int" where
  "UTC h t = t - LocalTZA h t False"

text \<open>\<open>d.getHours()\<close> and \<open>d.setHours(hour)\<close> on a valid date with time value \<open>t\<close>.\<close>

definition getHours :: "host \<Rightarrow> int \<Rightarrow> int" where
  "getHours h t = HourFromTime (LocalTime h t)"

definition setHours :: "host \<Rightarrow> int \<Rightarrow> int \<Rightarrow> jsdate" where
  "setHours h t hour =
     (let tl = LocalTime h t;
          date = MakeDate (Day tl) (MakeTime hour (MinFromTime tl) (SecFromTime tl) (msFromTime tl))
      in TimeClip (UTC h date))"

fun ToNumber :: "jsprim \<Rightarrow> jsnum" where
  "ToNumber Undefined = NaN"
| "ToNumber Null = Fin 0"
| "ToNumber (Bool b) = Fin (if b then 1 else 0)"
| "ToNumber (Num n) = n"
| "ToNumber (Str s) = NaN"

text \<open>
  \<open>TimeClip\<close> on a number: the integral part, when finite and within range.
  (\<open>ToNumber\<close> of a string is never needed: \<open>new Date\<close> parses strings.)
\<close>

fun TimeClipNum :: "jsnum \<Rightarrow> jsdate" where
  "TimeClipNum (Fin q) =
     (if \<bar>q\<bar> > 8640000000000000 then InvalidDate
      else Date (if 0 \<le> q then \<lfloor>q\<rfloor> else \<lceil>q\<rceil>))"
| "TimeClipNum n = InvalidDate"

definition parseDate :: "host \<Rightarrow> jsstring \<Rightarrow> jsdate" where
  "parseDate h s = (case Date_parse h s of None \<Rightarrow> InvalidDate | Some t \<Rightarrow> TimeClip t)"

text \<open>\<open>new Date(v)\<close>: the value is made primitive; a string is parsed, anything else is
  taken as a number of milliseconds.\<close>

fun newDate :: "host \<Rightarrow> jsval \<Rightarrow> jsdate result" where
  "newDate h (Prim (Str s)) = Inr (parseDate h s)"
| "newDate h (Prim p) = Inr (TimeClipNum (ToNumber p))"
| "newDate h v = bindE (ToString h v) (\<lambda>s. Inr (parseDate h s))"

text \<open>\<open>toSqlDateTime(iso)\<close>; \<open>None\<close> is \<open>null\<close>.\<close>

definition toSqlDateTime :: "host \<Rightarrow> jsval \<Rightarrow> jsdate option result" where
  "toSqlDateTime h iso' =
     (if \<not> truthy iso' then Inr None
      else bindE (newDate h iso') (\<lambda>d.
        case d of
          InvalidDate \<Rightarrow> Inr None
        | Date t \<Rightarrow> Inr (Some (setHours h t (getHours h t - 3)))))"

section \<open>Mapping the fetched logs\<close>

text \<open>
  \<open>v?.k\<close> for a property name that no prototype defines (all names the program reads are
  such), \<open>v?.[0]\<close>, and \<open>a ?? null\<close>.
\<close>

definition optGet :: "jsval \<Rightarrow> string \<Rightarrow> jsval" where
  "optGet v k =
     (case v of
        Obj kvs \<Rightarrow> (case map_of kvs (js k) of Some x \<Rightarrow> x | None \<Rightarrow> Prim Undefined)
      | _ \<Rightarrow> Prim Undefined)"

definition optIndex0 :: "jsval \<Rightarrow> jsval" where
  "optIndex0 v =
     (case v of
        Arr xs \<Rightarrow> (case xs of [] \<Rightarrow> Prim Undefined | x # _ \<Rightarrow> x)
      | Obj kvs \<Rightarrow> (case map_of kvs (js ''0'') of Some x \<Rightarrow> x | None \<Rightarrow> Prim Undefined)
      | Prim (Str s) \<Rightarrow> (case s of [] \<Rightarrow> Prim Undefined | c # _ \<Rightarrow> Prim (Str [c]))
      | _ \<Rightarrow> Prim Undefined)"

definition orNull :: "jsval \<Rightarrow> jsval" where
  "orNull v = (if nullish v then Prim Null else v)"

record mapped =
  status :: jsval
  destino :: jsval
  log_id :: jsval
  departamento :: jsval
  template_name :: jsval
  contact_name :: jsval
  createdAt :: "jsdate option"

definition mapLog :: "host \<Rightarrow> jsval \<Rightarrow> mapped result" where
  "mapLog h l =
     bindE (toSqlDateTime h (optGet l ''createdAt'')) (\<lambda>c.
       Inr \<lparr> status = orNull (optGet l ''status''),
             destino = orNull (optGet l ''destino''),
             log_id = orNull (optGet l ''campanha''),
             departamento = orNull (optGet l ''departamento''),
             template_name =
               orNull (optGet (optGet (optIndex0 (optGet (optGet l ''rawContact'') ''blocks''))
                 ''template'') ''name''),
             contact_name = orNull (optGet (optGet (optGet l ''rawContact'') ''contact'') ''name''),
             createdAt = c \<rparr>)"

text \<open>\<open>logs.map(f)\<close> where \<open>f\<close> may throw: the first exception ends the mapping.\<close>

fun mapE :: "('a \<Rightarrow> 'b result) \<Rightarrow> 'a list \<Rightarrow> 'b list result" where
  "mapE f [] = Inr []"
| "mapE f (x # xs) = bindE (f x) (\<lambda>y. bindE (mapE f xs) (\<lambda>ys. Inr (y # ys)))"

definition mapLogs :: "host \<Rightarrow> jsval \<Rightarrow> mapped list result" where
  "mapLogs h root' =
     (let logs = (case optGet root' ''logs'' of Arr xs \<Rightarrow> xs | _ \<Rightarrow> [])
      in mapE (mapLog h) logs)"

section \<open>The insert statement\<close>

text \<open>The seven inputs bound to the request of \<open>insertLog\<close>, in the order of the source.\<close>

record inputs =
  in_id :: "jsstring option"
  in_status :: "jsstring option"
  in_destino :: "jsstring option"
  in_departamento :: "jsstring option"
  in_template_name :: "jsstring option"
  in_contact_name :: "jsstring option"
  in_created_at :: "jsdate option"

definition bindInputs :: "host \<Rightarrow> mapped \<Rightarrow> inputs result" where
  "bindInputs h item =
     bindE (clampStr h (log_id item) 255) (\<lambda>a.
     bindE (clampStr h (status item) 30) (\<lambda>b.
     bindE (clampStr h (destino item) 30) (\<lambda>c.
     bindE (clampStr h (departamento item) 255) (\<lambda>d.
     bindE (clampStr h (template_name item) 100) (\<lambda>e.
     bindE (clampStr h (contact_name item) 255) (\<lambda>f.
       Inr \<lparr> in_id = a, in_status = b, in_destino = c, in_departamento = d,
             in_template_name = e, in_contact_name = f,
             in_created_at = createdAt item \<rparr>))))))"

section \<open>Double arithmetic and the progress bar\<close>

text \<open>
  \<open>fl q\<close> is the double nearest to the rational \<open>q\<close> (round to nearest, ties to even,
  53 significant bits), for \<open>q\<close> within the normal range of binary64; the quotients and
  products the program forms lie well inside it.  \<open>binade q\<close> is the exponent of the
  leading bit of a positive \<open>q\<close>.  The operators \<open>/\<close> and \<open>*\<close> of the source are the exact
  operation followed by \<open>fl\<close>; \<open>Math.round\<close> is exact, ties going up.
\<close>

function bits :: "int \<Rightarrow> int" where
  "bits n = (if n \<le> 0 then 0 else 1 + bits (n div 2))"
  by pat_completeness auto
termination
  by (relation "measure nat") auto

declare bits.simps [simp del]

definition binade :: "rat \<Rightarrow> int" where
  "binade q =
     (let (a, b) = quotient_of q; k = bits a - bits b
      in if 2 powi k \<le> q then k else k - 1)"

definition roundHalfEven :: "rat \<Rightarrow> int" where
  "roundHalfEven q =
     (let f = \<lfloor>q\<rfloor>; r = q - of_int f
      in if r < 1 / 2 then f else if 1 / 2 < r then f + 1 else if even f then f else f + 1)"

definition fl :: "rat \<Rightarrow> rat" where
  "fl q =
     (if q = 0 then 0
      else let u = 2 powi (binade \<bar>q\<bar> - 52)
           in sgn q * of_int (roundHalfEven (\<bar>q\<bar> / u)) * u)"

definition Math_round :: "rat \<Rightarrow> int" where
  "Math_round x = \<lfloor>x + 1 / 2\<rfloor>"

text \<open>
  \<open>buildProgressBar(percent, width)\<close>, for a percentage that is a natural number (the
  program passes \<open>0\<close> and \<open>progressPercent\<close>); \<open>None\<close> is an omitted \<open>width\<close>.
\<close>

definition repeat :: "jsstring \<Rightarrow> nat \<Rightarrow> jsstring" where
  "repeat str n = concat (replicate n str)"

definition buildProgressBar :: "nat \<Rightarrow> nat option \<Rightarrow> jsstring" where
  "buildProgressBar percent width =
     (let size = (case width of None \<Rightarrow> 20 | Some w \<Rightarrow> if w = 0 then 20 else w);
          filled = Math_round (fl (fl (of_nat percent / 100) * of_nat size));
          empty = max (int size - filled) 0
      in js ''['' @ repeat (js ''#'') (nat filled) @ repeat (js ''-'') (nat empty) @ js '']'')"

section \<open>The process state and its environment\<close>

text \<open>
  A campaign row; only its \<open>id\<close> column is read, and holds a primitive value: a number,
  a string, \<open>null\<close>, or \<open>undefined\<close> when the table has no such column.
\<close>

record campaign =
  id' :: jsprim

text \<open>
  The calls the program makes to the database and to the remote API, as they are issued.
  A log request is identified by the position of its campaign in the list, an insert by that
  and the position of the record in the campaign's batch.
\<close>

datatype call =
  Connect
| QueryCampanhas
| FetchLogs nat jsprim
| InsertLog nat nat inputs

text \<open>
  What the outside world answers during one run: the configured token, the instant read by
  the \<open>n\<close>-th call of \<open>nowIso\<close>, and the outcome of every call (\<open>Inl\<close> is the message of the
  error it raises).  An ISO string made by \<open>toISOString\<close> is represented by the time value
  it denotes, which \<open>new Date\<close> reads back from it.
\<close>

record env =
  token :: jsprim
  clock :: "nat \<Rightarrow> int"
  sql_connect :: "unit result"
  query_campanhas :: "campaign list result"
  api_logs :: "nat \<Rightarrow> jsprim \<Rightarrow> jsval result"
  sql_insert :: "nat \<Rightarrow> nat \<Rightarrow> inputs \<Rightarrow> unit result"

text \<open>
  The mutable state of the process: the fields of the \<open>status\<close> object, the memoised
  \<open>poolPromise\<close>, the number of clock reads and the calls issued so far.
\<close>

record state =
  running :: bool
  lastRunStartedAt :: "int option"
  lastRunFinishedAt :: "int option"
  lastSuccessAt :: "int option"
  lastError :: "jsstring option"
  lastErrorAt :: "int option"
  campaignsTotal :: nat
  campaignsProcessed :: nat
  logsInserted :: nat
  logInsertErrors :: nat
  currentCampaignId :: jsprim
  progressPercent :: nat
  progressBar :: jsstring
  lastLogCreatedAt :: "int option"
  poolPromise :: "unit result option"
  ticks :: nat
  calls :: "call list"

definition nowIso :: "env \<Rightarrow> state \<Rightarrow> int \<times> state" where
  "nowIso e s = (clock e (ticks s), s\<lparr>ticks := ticks s + 1\<rparr>)"

definition getPool :: "env \<Rightarrow> state \<Rightarrow> unit result \<times> state" where
  "getPool e s =
     (case poolPromise s of
        None \<Rightarrow> (sql_connect e, s\<lparr>poolPromise := Some (sql_connect e), calls := calls s @ [Connect]\<rparr>)
      | Some r \<Rightarrow> (r, s))"

definition fetchCampaigns :: "env \<Rightarrow> state \<Rightarrow> campaign list result \<times> state" where
  "fetchCampaigns e s = (query_campanhas e, s\<lparr>calls := calls s @ [QueryCampanhas]\<rparr>)"

definition fetchLogsForCampaign :: "env \<Rightarrow> nat \<Rightarrow> jsprim \<Rightarrow> state \<Rightarrow> jsval result \<times> state" where
  "fetchLogsForCampaign e i campaignId s =
     (api_logs e i campaignId, s\<lparr>calls := calls s @ [FetchLogs i campaignId]\<rparr>)"

section \<open>Inserting the mapped logs\<close>

text \<open>
  \<open>insertLog\<close>: binding an input fails only when \<open>clampStr\<close> throws; the statement is
  then never sent.  Otherwise the outcome is that of the query.
\<close>

definition insertLog :: "host \<Rightarrow> env \<Rightarrow> nat \<Rightarrow> nat \<Rightarrow> mapped \<Rightarrow> state \<Rightarrow> unit result \<times> state" where
  "insertLog h e i j item s =
     (case bindInputs h item of
        Inl m \<Rightarrow> (Inl m, s)
      | Inr p \<Rightarrow> (sql_insert e i j p, s\<lparr>calls := calls s @ [InsertLog i j p]\<rparr>))"

text \<open>The \<open>catch\<close> block of \<open>insertLogs\<close>.\<close>

definition insertFailed :: "env \<Rightarrow> jsstring \<Rightarrow> state \<Rightarrow> state" where
  "insertFailed e m s =
     (let s1 = s\<lparr>logInsertErrors := logInsertErrors s + 1\<rparr>;
          s2 = s1\<lparr>lastError := Some (js ''Insert failed: '' @ m)\<rparr>;
          (t, s3) = nowIso e s2
      in s3\<lparr>lastErrorAt := Some t\<rparr>)"

text \<open>
  One turn of the loop of \<open>insertLogs\<close>, on the local counter \<open>inserted\<close> and the state.
  \<open>toISOString\<close> throws on an invalid date, inside the \<open>try\<close> and after the count.
\<close>

definition insertItem ::
  "host \<Rightarrow> env \<Rightarrow> nat \<Rightarrow> nat \<Rightarrow> mapped \<Rightarrow> nat \<times> state \<Rightarrow> nat \<times> state" where
  "insertItem h e i j item = (\<lambda>(inserted, s).
     case insertLog h e i j item s of
       (Inl m, s1) \<Rightarrow> (inserted, insertFailed e m s1)
     | (Inr u, s1) \<Rightarrow>
         (case createdAt item of
            None \<Rightarrow> (inserted + 1, s1)
          | Some InvalidDate \<Rightarrow> (inserted + 1, insertFailed e (msgInvalidTime h) s1)
          | Some (Date t) \<Rightarrow>
              (inserted + 1,
               case lastLogCreatedAt s1 of
                 None \<Rightarrow> s1\<lparr>lastLogCreatedAt := Some t\<rparr>
               | Some t0 \<Rightarrow> if t > t0 then s1\<lparr>lastLogCreatedAt := Some t\<rparr> else s1)))"

fun insertLoop ::
  "host \<Rightarrow> env \<Rightarrow> nat \<Rightarrow> nat \<Rightarrow> mapped list \<Rightarrow> nat \<times> state \<Rightarrow> nat \<times> state" where
  "insertLoop h e i j [] acc = acc"
| "insertLoop h e i j (item # rest) acc = insertLoop h e i (j + 1) rest (insertItem h e i j item acc)"

definition insertLogs :: "host \<Rightarrow> env \<Rightarrow> nat \<Rightarrow> mapped list \<Rightarrow> state \<Rightarrow> nat \<times> state" where
  "insertLogs h e i mappedLogs s = insertLoop h e i 0 mappedLogs (0, s)"

section \<open>One run\<close>

text \<open>
  What the program writes to the console is not part of the model; the messages are those
  it stores in \<open>lastError\<close>.
\<close>

text \<open>The inner \<open>try\<close> block of the campaign loop.\<close>

definition campaignBody ::
  "host \<Rightarrow> env \<Rightarrow> nat \<Rightarrow> jsprim \<Rightarrow> state \<Rightarrow> unit result \<times> state" where
  "campaignBody h e i campaignId s =
     (if \<not> truthyPrim campaignId then (Inl (js ''Campaign missing id''), s)
      else case fetchLogsForCampaign e i campaignId s of
        (Inl m, s1) \<Rightarrow> (Inl m, s1)
      | (Inr root', s1) \<Rightarrow>
          (case mapLogs h root' of
             Inl m \<Rightarrow> (Inl m, s1)
           | Inr mapped \<Rightarrow>
               (let (inserted, s2) = insertLogs h e i mapped s1
                in (Inr (), s2\<lparr>logsInserted := logsInserted s2 + inserted\<rparr>))))"

text \<open>The inner \<open>catch\<close> block.\<close>

definition campaignFailed :: "host \<Rightarrow> env \<Rightarrow> jsprim \<Rightarrow> jsstring \<Rightarrow> state \<Rightarrow> state" where
  "campaignFailed h e campaignId m s =
     (let s1 = s\<lparr>lastError :=
                 Some (js ''Campaign '' @ primToString h campaignId @ js '' failed: '' @ m)\<rparr>;
          (t, s2) = nowIso e s1
      in s2\<lparr>lastErrorAt := Some t\<rparr>)"

text \<open>One turn of the campaign loop, on the local flag \<open>runHadError\<close> and the state.\<close>

definition campaignTurn ::
  "host \<Rightarrow> env \<Rightarrow> nat \<Rightarrow> campaign \<Rightarrow> bool \<times> state \<Rightarrow> bool \<times> state" where
  "campaignTurn h e i c = (\<lambda>(runHadError, s).
     let campaignId = id' c;
         s1 = s\<lparr>currentCampaignId := (if truthyPrim campaignId then campaignId else Null)\<rparr>;
         (runHadError1, s2) =
           (case campaignBody h e i campaignId s1 of
              (Inr u, s') \<Rightarrow> (runHadError, s')
            | (Inl m, s') \<Rightarrow> (True, campaignFailed h e campaignId m s'));
         s3 = s2\<lparr>campaignsProcessed := i + 1\<rparr>;
         s4 = s3\<lparr>progressPercent :=
                 (if campaignsTotal s3 \<noteq> 0
                  then nat (Math_round
                         (fl (fl (of_nat (campaignsProcessed s3) / of_nat (campaignsTotal s3)) * 100)))
                  else 100)\<rparr>
     in (runHadError1, s4\<lparr>progressBar := buildProgressBar (progressPercent s4) None\<rparr>))"

fun campaignLoop ::
  "host \<Rightarrow> env \<Rightarrow> nat \<Rightarrow> campaign list \<Rightarrow> bool \<times> state \<Rightarrow> bool \<times> state" where
  "campaignLoop h e i [] acc = acc"
| "campaignLoop h e i (c # cs) acc = campaignLoop h e (i + 1) cs (campaignTurn h e i c acc)"

text \<open>The outer \<open>try\<close> block: \<open>Inl\<close> is the exception that reaches the outer \<open>catch\<close>.\<close>

definition runBody :: "host \<Rightarrow> env \<Rightarrow> state \<Rightarrow> unit result \<times> state" where
  "runBody h e s =
     (if \<not> truthyPrim (token e) then (Inl (js ''Missing ZAP_API_TOKEN''), s)
      else case getPool e s of
        (Inl m, s1) \<Rightarrow> (Inl m, s1)
      | (Inr pool, s1) \<Rightarrow>
          (case fetchCampaigns e s1 of
             (Inl m, s2) \<Rightarrow> (Inl m, s2)
           | (Inr campaigns, s2) \<Rightarrow>
               (let s3 = s2\<lparr>campaignsTotal := length campaigns\<rparr>;
                    (runHadError, s4) = campaignLoop h e 0 campaigns (False, s3);
                    (t, s5) = nowIso e s4;
                    s6 = s5\<lparr>lastRunFinishedAt := Some t\<rparr>
                in (Inr (),
                    if \<not> runHadError then s6\<lparr>lastSuccessAt := lastRunFinishedAt s6\<rparr> else s6))))"

text \<open>The outer \<open>catch\<close> block.\<close>

definition runFailed :: "env \<Rightarrow> jsstring \<Rightarrow> state \<Rightarrow> state" where
  "runFailed e m s =
     (let s1 = s\<lparr>lastError := Some m\<rparr>;
          (t1, s2) = nowIso e s1;
          s3 = s2\<lparr>lastErrorAt := Some t1\<rparr>;
          (t2, s4) = nowIso e s3
      in s4\<lparr>lastRunFinishedAt := Some t2\<rparr>)"

text \<open>The reset at the start of a run.\<close>

definition startRun :: "env \<Rightarrow> state \<Rightarrow> state" where
  "startRun e s =
     (let s1 = s\<lparr>running := True\<rparr>;
          (t, s2) = nowIso e s1
      in s2\<lparr>lastRunStartedAt := Some t,
             lastRunFinishedAt := None,
             currentCampaignId := Null,
             campaignsProcessed := 0,
             campaignsTotal := 0,
             logsInserted := 0,
             logInsertErrors := 0,
             progressPercent := 0,
             progressBar := buildProgressBar 0 None,
             lastError := None,
             lastErrorAt := None\<rparr>)"

definition runOnce :: "host \<Rightarrow> env \<Rightarrow> state \<Rightarrow> state" where
  "runOnce h e s =
     (if running s then
        (let s1 = s\<lparr>lastError := Some (js ''Skipped: previous run still in progress'')\<rparr>;
             (t, s2) = nowIso e s1
         in s2\<lparr>lastErrorAt := Some t\<rparr>)
      else
        (let s1 = startRun e s;
             s2 = (case runBody h e s1 of
                     (Inr u, s') \<Rightarrow> s'
                   | (Inl m, s') \<Rightarrow> runFailed e m s')
         in s2\<lparr>running := False\<rparr>))"

section \<open>Notions used to state the properties\<close>

text \<open>
  A textual source value: a string, \<open>null\<close> or \<open>undefined\<close>.  \<open>truncated n v\<close> is what the
  specification stores for it in a column of width \<open>n\<close>: the first \<open>n\<close> code units of a
  string, \<open>null\<close> otherwise.  \<open>fits n x\<close>: the stored value is within the width.
\<close>

definition textual :: "jsval \<Rightarrow> bool" where
  "textual v = (case v of Prim Undefined \<Rightarrow> True | Prim Null \<Rightarrow> True | Prim (Str s) \<Rightarrow> True | _ \<Rightarrow> False)"

definition truncated :: "nat \<Rightarrow> jsval \<Rightarrow> jsstring option" where
  "truncated n v = (case v of Prim (Str s) \<Rightarrow> Some (take n s) | _ \<Rightarrow> None)"

definition fits :: "nat \<Rightarrow> jsstring option \<Rightarrow> bool" where
  "fits n x = (case x of None \<Rightarrow> True | Some y \<Rightarrow> length y \<le> n)"

text \<open>
  The two nested source fields of a raw log record, as \<open>mapLogs\<close> reads them:
  \<open>l?.rawContact?.blocks?.[0]?.template?.name\<close> and \<open>l?.rawContact?.contact?.name\<close>.
\<close>

definition templateNameOf :: "jsval \<Rightarrow> jsval" where
  "templateNameOf l =
     optGet (optGet (optIndex0 (optGet (optGet l ''rawContact'') ''blocks'')) ''template'') ''name''"

definition contactNameOf :: "jsval \<Rightarrow> jsval" where
  "contactNameOf l = optGet (optGet (optGet l ''rawContact'') ''contact'') ''name''"

text \<open>
  The error that ends the processing of the campaign at position \<open>i\<close>, if any: a missing
  id, a failed log request, or an exception while mapping the response.  Insert failures
  are not among them.  \<open>campaignErrors\<close> collects them over a list of campaigns.
\<close>

definition campaignError :: "host \<Rightarrow> env \<Rightarrow> nat \<Rightarrow> campaign \<Rightarrow> jsstring option" where
  "campaignError h e i c =
     (if \<not> truthyPrim (id' c) then Some (js ''Campaign missing id'')
      else case api_logs e i (id' c) of
        Inl m \<Rightarrow> Some m
      | Inr r \<Rightarrow> (case mapLogs h r of Inl m \<Rightarrow> Some m | Inr ms \<Rightarrow> None))"

fun campaignErrors :: "host \<Rightarrow> env \<Rightarrow> nat \<Rightarrow> campaign list \<Rightarrow> jsstring list" where
  "campaignErrors h e i [] = []"
| "campaignErrors h e i (c # cs) =
     (case campaignError h e i c of None \<Rightarrow> [] | Some m \<Rightarrow> [m]) @ campaignErrors h e (i + 1) cs"

text \<open>
  The error that ends the whole run before the campaign loop, if any: a missing token, a
  failed connection (now or when the pool was first requested), a failed campaign query.
  \<open>campaignsOf\<close> is the list the query returns.
\<close>

definition topLevelError :: "env \<Rightarrow> state \<Rightarrow> jsstring option" where
  "topLevelError e s =
     (if \<not> truthyPrim (token e) then Some (js ''Missing ZAP_API_TOKEN'')
      else case (case poolPromise s of None \<Rightarrow> sql_connect e | Some r \<Rightarrow> r) of
        Inl m \<Rightarrow> Some m
      | Inr u \<Rightarrow> (case query_campanhas e of Inl m \<Rightarrow> Some m | Inr cs \<Rightarrow> None))"

definition campaignsOf :: "env \<Rightarrow> campaign list" where
  "campaignsOf e = (case query_campanhas e of Inl m \<Rightarrow> [] | Inr cs \<Rightarrow> cs)"

text \<open>
  What holds between a state and any later state reached inside the campaign loop: six
  fields are never written there, issued calls are never forgotten, the clock and the
  count of insert errors never go back, and a recorded error is only replaced by another.
\<close>

definition loopFrame :: "state \<Rightarrow> state \<Rightarrow> bool" where
  "loopFrame s s' =
     (running s' = running s \<and> lastRunStartedAt s' = lastRunStartedAt s
      \<and> lastRunFinishedAt s' = lastRunFinishedAt s \<and> lastSuccessAt s' = lastSuccessAt s
      \<and> campaignsTotal s' = campaignsTotal s \<and> poolPromise s' = poolPromise s
      \<and> set (calls s) \<subseteq> set (calls s') \<and> ticks s \<le> ticks s'
      \<and> logInsertErrors s \<le> logInsertErrors s'
      \<and> (lastError s' = None \<longrightarrow> lastError s = None))"

text \<open>
  The error that \<open>insertLog\<close> raises for the record at position \<open>j\<close> of the batch of campaign
  \<open>i\<close>, if any; and the number of records of a batch, from position \<open>j\<close> on, for which it
  raises one.
\<close>

definition insertError :: "host \<Rightarrow> env \<Rightarrow> nat \<Rightarrow> nat \<Rightarrow> mapped \<Rightarrow> jsstring option" where
  "insertError h e i j item =
     (case bindInputs h item of
        Inl m \<Rightarrow> Some m
      | Inr p \<Rightarrow> (case sql_insert e i j p of Inl m \<Rightarrow> Some m | Inr u \<Rightarrow> None))"

fun insertErrors :: "host \<Rightarrow> env \<Rightarrow> nat \<Rightarrow> nat \<Rightarrow> mapped list \<Rightarrow> nat" where
  "insertErrors h e i j [] = 0"
| "insertErrors h e i j (item # rest) =
     (if insertError h e i j item = None then 0 else 1) + insertErrors h e i (j + 1) rest"

text \<open>The state in which the campaign loop starts, in a run started in state \<open>s\<close>.\<close>

definition loopStart :: "env \<Rightarrow> state \<Rightarrow> state" where
  "loopStart e s =
     (snd (fetchCampaigns e (snd (getPool e (startRun e s)))))
       \<lparr>campaignsTotal := length (campaignsOf e)\<rparr>"

text \<open>The percentage the campaign loop stores after \<open>p\<close> of \<open>n\<close> campaigns.\<close>

definition percentOf :: "nat \<Rightarrow> nat \<Rightarrow> nat" where
  "percentOf p n =
     (if n \<noteq> 0 then nat (Math_round (fl (fl (of_nat p / of_nat n) * 100))) else 100)"

text \<open>
  The instants \<open>created_at\<close> of the records that a run inserts successfully with a valid
  date: those of a batch from position \<open>j\<close> on, of the campaign at position \<open>i\<close>, of the
  campaigns from position \<open>i\<close> on, and of the whole run started in state \<open>s\<close>.
  \<open>latest T\<close> is the greatest instant of a set, \<open>null\<close> for the empty set.
\<close>

fun insertedTimes :: "host \<Rightarrow> env \<Rightarrow> nat \<Rightarrow> nat \<Rightarrow> mapped list \<Rightarrow> int list" where
  "insertedTimes h e i j [] = []"
| "insertedTimes h e i j (item # rest) =
     (case createdAt item of
        Some (Date t) \<Rightarrow> (if insertError h e i j item = None then [t] else [])
      | _ \<Rightarrow> [])
     @ insertedTimes h e i (j + 1) rest"

definition campaignTimes :: "host \<Rightarrow> env \<Rightarrow> nat \<Rightarrow> campaign \<Rightarrow> int list" where
  "campaignTimes h e i c =
     (if \<not> truthyPrim (id' c) then []
      else case api_logs e i (id' c) of
        Inl m \<Rightarrow> []
      | Inr r \<Rightarrow> (case mapLogs h r of Inl m \<Rightarrow> [] | Inr ms \<Rightarrow> insertedTimes h e i 0 ms))"

fun loopTimes :: "host \<Rightarrow> env \<Rightarrow> nat \<Rightarrow> campaign list \<Rightarrow> int list" where
  "loopTimes h e i [] = []"
| "loopTimes h e i (c # cs) = campaignTimes h e i c @ loopTimes h e (i + 1) cs"

definition runTimes :: "host \<Rightarrow> env \<Rightarrow> state \<Rightarrow> int list" where
  "runTimes h e s =
     (case topLevelError e s of None \<Rightarrow> loopTimes h e 0 (campaignsOf e) | Some m \<Rightarrow> [])"

definition latest :: "int set \<Rightarrow> int option" where
  "latest T = (if T = {} then None else Some (Max T))"

text \<open>
  The time value of a UTC calendar date and time, by the day arithmetic of ECMA-262
  (\<open>DayFromYear\<close>, \<open>MakeDay\<close>), with months counted from 1.
\<close>

definition DayFromYear :: "int \<Rightarrow> int" where
  "DayFromYear y =
     365 * (y - 1970) + (y - 1969) div 4 - (y - 1901) div 100 + (y - 1601) div 400"

definition InLeapYear :: "int \<Rightarrow> bool" where
  "InLeapYear y = (y mod 4 = 0 \<and> (y mod 100 \<noteq> 0 \<or> y mod 400 = 0))"

definition MakeDay :: "int \<Rightarrow> int \<Rightarrow> int \<Rightarrow> int" where
  "MakeDay y m d =
     DayFromYear y
     + sum_list (take (nat (m - 1)) [31, if InLeapYear y then 29 else 28, 31, 30, 31, 30, 31, 31, 30, 31, 30, 31])
     + d - 1"

definition utcTime :: "int \<Rightarrow> int \<Rightarrow> int \<Rightarrow> int \<Rightarrow> int \<Rightarrow> int \<Rightarrow> int" where
  "utcTime y m d hh mm ss = MakeDate (MakeDay y m d) (MakeTime hh mm ss 0)"

text \<open>
  The number of filled cells the specification gives a bar of 20 cells: percent / 100 x 20,
  in exact arithmetic, rounded to the nearest integer, halves going up.
\<close>

definition roundedCells :: "nat \<Rightarrow> nat" where
  "roundedCells percent = nat \<lfloor>(of_nat percent / 100 * 20 :: rat) + 1 / 2\<rfloor>"

section \<open>Example inputs\<close>

text \<open>
  A host at the fixed offset UTC-3, with V8's message texts.
  Its parser reads the two timestamps of the examples; its number printer prints the
  natural numbers, the only numbers in the examples.
\<close>

fun showNat :: "nat \<Rightarrow> string" where
  "showNat n =
     (if n < 10 then [char_of (48 + n)] else showNat (n div 10) @ [char_of (48 + n mod 10)])"

declare showNat.simps [simp del]

definition hostBRT :: host where
  "hostBRT =
     \<lparr> LocalTZA = (\<lambda>t isUTC. - 10800000),
       Date_parse = (\<lambda>s. if s = js ''2024-01-01T10:00:00Z'' then Some 1704103200000
                         else if s = js ''2024-01-02T10:00:00Z'' then Some 1704189600000
                         else None),
       Number_toString = (\<lambda>n. case n of Fin q \<Rightarrow> js (showNat (nat \<lfloor>q\<rfloor>)) | _ \<Rightarrow> js ''NaN''),
       msgNotPrimitive = js ''Cannot convert object to primitive value'',
       msgInvalidTime = js ''Invalid time value'' \<rparr>"

text \<open>
  A host in the zone America/New\_York around the start of daylight saving time on
  2024-03-10, when local clocks went from 02:00 (UTC-5) to 03:00 (UTC-4) at 07:00 UTC.
  A local time in the skipped hour is read with the offset before the change.  Its parser
  reads one timestamp, 08:30 UTC on that day.
\<close>

definition hostNY :: host where
  "hostNY =
     \<lparr> LocalTZA = (\<lambda>t isUTC.
         if isUTC then (if t < utcTime 2024 3 10 7 0 0 then - 18000000 else - 14400000)
         else (if t < utcTime 2024 3 10 3 0 0 then - 18000000 else - 14400000)),
       Date_parse = (\<lambda>s. if s = js ''2024-03-10T08:30:00Z'' then Some (utcTime 2024 3 10 8 30 0)
                         else None),
       Number_toString = (\<lambda>n. case n of Fin q \<Rightarrow> js (showNat (nat \<lfloor>q\<rfloor>)) | _ \<Rightarrow> js ''NaN''),
       msgNotPrimitive = js ''Cannot convert object to primitive value'',
       msgInvalidTime = js ''Invalid time value'' \<rparr>"

text \<open>The state of a freshly started process.\<close>

definition initialState :: state where
  "initialState =
     \<lparr> running = False, lastRunStartedAt = None, lastRunFinishedAt = None, lastSuccessAt = None,
       lastError = None, lastErrorAt = None, campaignsTotal = 0, campaignsProcessed = 0,
       logsInserted = 0, logInsertErrors = 0, currentCampaignId = Null, progressPercent = 0,
       progressBar = [], lastLogCreatedAt = None, poolPromise = None, ticks = 0, calls = [] \<rparr>"

text \<open>
  The scenario of the specification: three campaigns; the log request of the second one
  fails; the first and the third return two logs each (the first log with a creation
  time, the second without), and every insert succeeds.
\<close>

definition twoLogs :: jsval where
  "twoLogs =
     Obj [(js ''logs'', Arr [
       Obj [(js ''status'', Prim (Str (js ''sent''))),
            (js ''destino'', Prim (Str (js ''5511999990000''))),
            (js ''campanha'', Prim (Str (js ''c-1''))),
            (js ''createdAt'', Prim (Str (js ''2024-01-01T10:00:00Z'')))],
       Obj [(js ''status'', Prim (Str (js ''failed'')))]])]"

text \<open>A response with one log, created a day later than those of \<open>twoLogs\<close>.\<close>

definition laterLogs :: jsval where
  "laterLogs =
     Obj [(js ''logs'', Arr [
       Obj [(js ''status'', Prim (Str (js ''sent''))),
            (js ''createdAt'', Prim (Str (js ''2024-01-02T10:00:00Z'')))]])]"

definition exampleEnv :: env where
  "exampleEnv =
     \<lparr> token = Str (js ''secret''),
       clock = (\<lambda>n. 1704110400000 + 1000 * int n),
       sql_connect = Inr (),
       query_campanhas = Inr [\<lparr>id' = Num (Fin 1)\<rparr>, \<lparr>id' = Num (Fin 2)\<rparr>, \<lparr>id' = Num (Fin 3)\<rparr>],
       api_logs = (\<lambda>i campaignId. if i = 1 then Inl (js ''API 500'') else Inr twoLogs),
       sql_insert = (\<lambda>i j p. Inr ()) \<rparr>"

section \<open>Basic facts\<close>

lemma js_append: "js (a @ b) = js a @ js b"
  by (simp add: js_def)

lemma bindE_Inr [simp]: "bindE (Inr x) f = f x"
  by (simp add: bindE_def)

lemma bindE_Inl [simp]: "bindE (Inl m) f = Inl m"
  by (simp add: bindE_def)

lemma nowIso_eq: "nowIso e s = (clock e (ticks s), s\<lparr>ticks := ticks s + 1\<rparr>)"
  by (simp add: nowIso_def)

section \<open>Truncation of the text columns\<close>

lemma clampStr_textual:
  assumes "textual v"
  shows "clampStr h v (int n) = Inr (truncated n v)"
proof (cases v)
  case (Prim p)
  with assms show ?thesis
    by (cases p) (auto simp: clampStr_def truncated_def textual_def slice0_def)
next
  case (Arr xs)
  with assms show ?thesis by (simp add: textual_def)
next
  case (Obj kvs)
  with assms show ?thesis by (simp add: textual_def)
qed

text \<open>
  For any value and any width that is not negative: \<open>null\<close> and \<open>undefined\<close> give \<open>null\<close>;
  anything else is converted to a string, which fails only for an object with an own
  property \<open>toString\<close> (in itself or in an array), and the string is cut to the width.
\<close>

lemma clampStr_any:
  "clampStr h v (int n) =
     (if v = Prim Null \<or> v = Prim Undefined then Inr None
      else bindE (ToString h v) (\<lambda>str. Inr (Some (take n str))))"
  by (simp add: clampStr_def slice0_def bindE_def split: sum.splits)

lemma fits_truncated: "fits n (truncated n v)"
  by (auto simp: fits_def truncated_def split: jsval.splits jsprim.splits)

text \<open>
  C8.  When the six text fields of a mapped record hold strings, \<open>null\<close> or \<open>undefined\<close>,
  binding the inputs of the insert statement never fails: every string is cut to the first
  255 (id, departamento, contact\_name), 30 (status, destino) or 100 (template\_name) code
  units, a string within the width is bound as it is, and \<open>null\<close> and \<open>undefined\<close> are bound
  as \<open>null\<close>.  A departamento of 300 code units is bound as exactly its first 255.
\<close>

theorem insert_inputs_truncated:
  assumes "textual (log_id item)" and "textual (status item)" and "textual (destino item)"
    and "textual (departamento item)" and "textual (template_name item)"
    and "textual (contact_name item)"
  shows "bindInputs h item =
           Inr \<lparr> in_id = truncated 255 (log_id item),
                 in_status = truncated 30 (status item),
                 in_destino = truncated 30 (destino item),
                 in_departamento = truncated 255 (departamento item),
                 in_template_name = truncated 100 (template_name item),
                 in_contact_name = truncated 255 (contact_name item),
                 in_created_at = createdAt item \<rparr>
         \<and> fits 255 (truncated 255 (log_id item)) \<and> fits 30 (truncated 30 (status item))
         \<and> fits 30 (truncated 30 (destino item)) \<and> fits 255 (truncated 255 (departamento item))
         \<and> fits 100 (truncated 100 (template_name item))
         \<and> fits 255 (truncated 255 (contact_name item))
         \<and> (\<forall>s. length s \<le> 255 \<and> departamento item = Prim (Str s)
                \<longrightarrow> truncated 255 (departamento item) = Some s)
         \<and> (\<forall>s. length s = 300 \<and> departamento item = Prim (Str s)
                \<longrightarrow> truncated 255 (departamento item) = Some (take 255 s)
                    \<and> length (take 255 s) = 255)"
proof -
  have "bindInputs h item =
           Inr \<lparr> in_id = truncated 255 (log_id item),
                 in_status = truncated 30 (status item),
                 in_destino = truncated 30 (destino item),
                 in_departamento = truncated 255 (departamento item),
                 in_template_name = truncated 100 (template_name item),
                 in_contact_name = truncated 255 (contact_name item),
                 in_created_at = createdAt item \<rparr>"
    using assms clampStr_textual [of _ h 255] clampStr_textual [of _ h 30]
      clampStr_textual [of _ h 100]
    by (simp add: bindInputs_def)
  moreover have "\<forall>s. length s \<le> 255 \<and> departamento item = Prim (Str s)
                \<longrightarrow> truncated 255 (departamento item) = Some s"
    by (simp add: truncated_def)
  moreover have "\<forall>s. length s = 300 \<and> departamento item = Prim (Str s)
                \<longrightarrow> truncated 255 (departamento item) = Some (take 255 s)
                    \<and> length (take 255 s) = 255"
    by (simp add: truncated_def)
  ultimately show ?thesis
    by (simp only: fits_truncated simp_thms)
qed

theorem insert_inputs_truncated_witness:
  "textual (Prim (Str (js ''c-1''))) \<and> textual (Prim (Str (js ''delivered'')))
   \<and> textual (Prim Null) \<and> textual (Prim (Str (replicate 300 97)))
   \<and> bindInputs hostBRT
        \<lparr> status = Prim (Str (js ''delivered'')), destino = Prim Null,
          log_id = Prim (Str (js ''c-1'')), departamento = Prim (Str (replicate 300 97)),
          template_name = Prim Null, contact_name = Prim Null, createdAt = None \<rparr>
      = Inr \<lparr> in_id = Some (js ''c-1''), in_status = Some (js ''delivered''), in_destino = None,
              in_departamento = Some (replicate 255 97), in_template_name = None,
              in_contact_name = None, in_created_at = None \<rparr>
   \<and> length (replicate 255 (97 :: 16 word)) = 255
   \<and> length (js ''vendas'') \<le> 255
   \<and> bindInputs hostBRT
        \<lparr> status = Prim Null, destino = Prim Null, log_id = Prim Null,
          departamento = Prim (Str (js ''vendas'')), template_name = Prim Null,
          contact_name = Prim Null, createdAt = None \<rparr>
      = Inr \<lparr> in_id = None, in_status = None, in_destino = None,
              in_departamento = Some (js ''vendas''), in_template_name = None,
              in_contact_name = None, in_created_at = None \<rparr>"
  using insert_inputs_truncated [of
      "\<lparr> status = Prim (Str (js ''delivered'')), destino = Prim Null,
          log_id = Prim (Str (js ''c-1'')), departamento = Prim (Str (replicate 300 97)),
          template_name = Prim Null, contact_name = Prim Null, createdAt = None \<rparr>" hostBRT]
    insert_inputs_truncated [of
      "\<lparr> status = Prim Null, destino = Prim Null, log_id = Prim Null,
          departamento = Prim (Str (js ''vendas'')), template_name = Prim Null,
          contact_name = Prim Null, createdAt = None \<rparr>" hostBRT]
  by (simp add: textual_def truncated_def js_def)

section \<open>The single-flight guard\<close>

text \<open>
  C2.  Called while \<open>running\<close> is true, \<open>runOnce\<close> sets \<open>lastError\<close> to a message that ends
  with "previous run still in progress" and \<open>lastErrorAt\<close> to the instant it reads from the
  clock, and changes nothing else: every other field of the status, the pool and the list
  of calls issued are as before.
\<close>

theorem runOnce_while_running:
  assumes "running s"
  shows "runOnce h e s =
           s\<lparr> lastError := Some (js ''Skipped: '' @ js ''previous run still in progress''),
              lastErrorAt := Some (clock e (ticks s)),
              ticks := ticks s + 1 \<rparr>"
  using assms by (simp add: runOnce_def nowIso_def js_append [symmetric])

theorem runOnce_while_running_witness:
  "running (initialState\<lparr>running := True\<rparr>)
   \<and> runOnce hostBRT exampleEnv (initialState\<lparr>running := True\<rparr>) =
       initialState\<lparr> running := True,
                     lastError := Some (js ''Skipped: previous run still in progress''),
                     lastErrorAt := Some 1704110400000,
                     ticks := 1 \<rparr>"
  using runOnce_while_running [of "initialState\<lparr>running := True\<rparr>" hostBRT exampleEnv]
  by (simp add: initialState_def exampleEnv_def js_append [symmetric])

section \<open>The log mapper on missing data\<close>

lemma optGet_nullish [simp]: "nullish v \<Longrightarrow> optGet v k = Prim Undefined"
  by (cases v rule: nullish.cases) (simp_all add: optGet_def)

lemma optIndex0_nullish [simp]: "nullish v \<Longrightarrow> optIndex0 v = Prim Undefined"
  by (cases v rule: nullish.cases) (simp_all add: optIndex0_def)

lemma orNull_nullish: "nullish v \<Longrightarrow> orNull v = Prim Null"
  by (simp add: orNull_def)

lemma nullish_not_truthy: "nullish v \<Longrightarrow> \<not> truthy v"
  by (cases v rule: nullish.cases) simp_all

lemma mapLogs_not_array:
  assumes "\<forall>xs. optGet root' ''logs'' \<noteq> Arr xs"
  shows "mapLogs h root' = Inr []"
  using assms by (simp add: mapLogs_def split: jsval.splits)

lemma mapLog_fields:
  assumes "mapLog h l = Inr m"
  shows "status m = orNull (optGet l ''status'')"
    and "destino m = orNull (optGet l ''destino'')"
    and "log_id m = orNull (optGet l ''campanha'')"
    and "departamento m = orNull (optGet l ''departamento'')"
    and "template_name m = orNull (templateNameOf l)"
    and "contact_name m = orNull (contactNameOf l)"
  using assms
  by (auto simp: mapLog_def bindE_def templateNameOf_def contactNameOf_def split: sum.splits)

lemma mapLog_no_createdAt:
  assumes "\<not> truthy (optGet l ''createdAt'')"
  shows "\<exists>m. mapLog h l = Inr m \<and> createdAt m = None"
  using assms by (simp add: mapLog_def toSqlDateTime_def)

lemma nested_names_nullish:
  "nullish (optGet l ''rawContact'') \<Longrightarrow> nullish (templateNameOf l) \<and> nullish (contactNameOf l)"
  "nullish (optGet (optGet l ''rawContact'') ''blocks'') \<Longrightarrow> nullish (templateNameOf l)"
  "nullish (optIndex0 (optGet (optGet l ''rawContact'') ''blocks'')) \<Longrightarrow> nullish (templateNameOf l)"
  "nullish (optGet (optIndex0 (optGet (optGet l ''rawContact'') ''blocks'')) ''template'')
     \<Longrightarrow> nullish (templateNameOf l)"
  "nullish (optGet (optGet l ''rawContact'') ''contact'') \<Longrightarrow> nullish (contactNameOf l)"
  by (simp_all add: templateNameOf_def contactNameOf_def)

lemma insertLogs_Nil [simp]: "insertLogs h e i [] s = (0, s)"
  by (simp add: insertLogs_def)

lemma campaignBody_no_logs:
  assumes "truthyPrim campaignId" and "api_logs e i campaignId = Inr root'"
    and "mapLogs h root' = Inr []"
  shows "campaignBody h e i campaignId s = (Inr (), s\<lparr>calls := calls s @ [FetchLogs i campaignId]\<rparr>)"
  using assms by (simp add: campaignBody_def fetchLogsForCampaign_def)

text \<open>
  C10.  When the \<open>logs\<close> field of a response body is absent, \<open>null\<close> or anything but an
  array, \<open>mapLogs\<close> returns the empty list and raises nothing; the campaign then completes
  without an error, issues no insert and leaves every counter as it was.  A raw record
  without a usable \<open>createdAt\<close> is always mapped, with \<open>created_at\<close> null; and in every mapped
  record a source field that is absent or null (status, destino, campanha, departamento,
  the template name and the contact name, whichever link of their paths is missing) is
  mapped to \<open>null\<close>.
\<close>

theorem mapLogs_tolerates_missing:
  assumes "\<forall>xs. optGet root' ''logs'' \<noteq> Arr xs"
  shows "mapLogs h root' = Inr []
    \<and> (truthyPrim campaignId \<and> api_logs e i campaignId = Inr root' \<longrightarrow>
         campaignBody h e i campaignId s
           = (Inr (), s\<lparr>calls := calls s @ [FetchLogs i campaignId]\<rparr>))
    \<and> (\<forall>l. \<not> truthy (optGet l ''createdAt'') \<longrightarrow> (\<exists>m. mapLog h l = Inr m \<and> createdAt m = None))
    \<and> (\<forall>l m. mapLog h l = Inr m \<longrightarrow>
          (nullish (optGet l ''status'') \<longrightarrow> status m = Prim Null)
        \<and> (nullish (optGet l ''destino'') \<longrightarrow> destino m = Prim Null)
        \<and> (nullish (optGet l ''campanha'') \<longrightarrow> log_id m = Prim Null)
        \<and> (nullish (optGet l ''departamento'') \<longrightarrow> departamento m = Prim Null)
        \<and> (nullish (templateNameOf l) \<longrightarrow> template_name m = Prim Null)
        \<and> (nullish (contactNameOf l) \<longrightarrow> contact_name m = Prim Null)
        \<and> (nullish (optGet l ''rawContact'')
              \<longrightarrow> template_name m = Prim Null \<and> contact_name m = Prim Null))"
proof -
  have a: "mapLogs h root' = Inr []"
    using assms by (rule mapLogs_not_array)
  have b: "truthyPrim campaignId \<and> api_logs e i campaignId = Inr root' \<longrightarrow>
         campaignBody h e i campaignId s
           = (Inr (), s\<lparr>calls := calls s @ [FetchLogs i campaignId]\<rparr>)"
    using a by (simp add: campaignBody_no_logs)
  have c: "\<forall>l. \<not> truthy (optGet l ''createdAt'') \<longrightarrow> (\<exists>m. mapLog h l = Inr m \<and> createdAt m = None)"
    by (simp add: mapLog_no_createdAt)
  have d: "\<forall>l m. mapLog h l = Inr m \<longrightarrow>
          (nullish (optGet l ''status'') \<longrightarrow> status m = Prim Null)
        \<and> (nullish (optGet l ''destino'') \<longrightarrow> destino m = Prim Null)
        \<and> (nullish (optGet l ''campanha'') \<longrightarrow> log_id m = Prim Null)
        \<and> (nullish (optGet l ''departamento'') \<longrightarrow> departamento m = Prim Null)
        \<and> (nullish (templateNameOf l) \<longrightarrow> template_name m = Prim Null)
        \<and> (nullish (contactNameOf l) \<longrightarrow> contact_name m = Prim Null)
        \<and> (nullish (optGet l ''rawContact'')
              \<longrightarrow> template_name m = Prim Null \<and> contact_name m = Prim Null)"
    by (simp add: mapLog_fields orNull_nullish nested_names_nullish)
  from a b c d show ?thesis by blast
qed

theorem mapLogs_tolerates_missing_witness:
  "(\<forall>xs. optGet (Obj [(js ''total'', Prim (Num (Fin 0)))]) ''logs'' \<noteq> Arr xs)
   \<and> mapLogs hostBRT (Obj [(js ''total'', Prim (Num (Fin 0)))]) = Inr []
   \<and> campaignBody hostBRT
        (exampleEnv\<lparr>api_logs := \<lambda>i c. Inr (Obj [(js ''total'', Prim (Num (Fin 0)))])\<rparr>)
        0 (Num (Fin 1)) initialState
      = (Inr (), initialState\<lparr>calls := [FetchLogs 0 (Num (Fin 1))]\<rparr>)
   \<and> mapLog hostBRT (Obj []) =
       Inr \<lparr> status = Prim Null, destino = Prim Null, log_id = Prim Null,
             departamento = Prim Null, template_name = Prim Null, contact_name = Prim Null,
             createdAt = None \<rparr>"
proof -
  have h: "\<forall>xs. optGet (Obj [(js ''total'', Prim (Num (Fin 0)))]) ''logs'' \<noteq> Arr xs"
    by (simp add: optGet_def js_def)
  have g: "\<not> truthy (optGet (Obj []) ''createdAt'')" "nullish (optGet (Obj []) k)" for k
    by (simp_all add: optGet_def)
  note t = mapLogs_tolerates_missing [OF h, of hostBRT "Num (Fin 1)"
      "exampleEnv\<lparr>api_logs := \<lambda>i c. Inr (Obj [(js ''total'', Prim (Num (Fin 0)))])\<rparr>"
      0 initialState]
  from t obtain m where m: "mapLog hostBRT (Obj []) = Inr m" "createdAt m = None"
    using g(1) by blast
  with t g(2) have "status m = Prim Null" "destino m = Prim Null" "log_id m = Prim Null"
    "departamento m = Prim Null" "template_name m = Prim Null" "contact_name m = Prim Null"
    by blast+
  with m have "mapLog hostBRT (Obj []) =
       Inr \<lparr> status = Prim Null, destino = Prim Null, log_id = Prim Null,
             departamento = Prim Null, template_name = Prim Null, contact_name = Prim Null,
             createdAt = None \<rparr>"
    by simp
  moreover have "campaignBody hostBRT
        (exampleEnv\<lparr>api_logs := \<lambda>i c. Inr (Obj [(js ''total'', Prim (Num (Fin 0)))])\<rparr>)
        0 (Num (Fin 1)) initialState
      = (Inr (), initialState\<lparr>calls := [FetchLogs 0 (Num (Fin 1))]\<rparr>)"
    using t by (simp add: initialState_def)
  ultimately show ?thesis using h t by blast
qed

section \<open>What the loops leave alone\<close>

lemma loopFrame_refl [simp]: "loopFrame s s"
  by (simp add: loopFrame_def)

lemma loopFrame_trans: "loopFrame s s' \<Longrightarrow> loopFrame s' s'' \<Longrightarrow> loopFrame s s''"
  by (auto simp: loopFrame_def)

lemma insertFailed_loopFrame: "loopFrame s (insertFailed e m s)"
  by (simp add: loopFrame_def insertFailed_def nowIso_def)

lemma insertLog_state:
  "snd (insertLog h e i j item s) = s \<or>
   (\<exists>p. snd (insertLog h e i j item s) = s\<lparr>calls := calls s @ [InsertLog i j p]\<rparr>)"
  by (auto simp: insertLog_def split: sum.splits)

lemma insertLog_loopFrame: "loopFrame s (snd (insertLog h e i j item s))"
  using insertLog_state [of h e i j item s] by (auto simp: loopFrame_def)

lemma insertItem_loopFrame: "loopFrame s (snd (insertItem h e i j item (n, s)))"
proof -
  obtain r s1 where r: "insertLog h e i j item s = (r, s1)"
    by (cases "insertLog h e i j item s")
  then have u: "loopFrame s s1"
    using insertLog_loopFrame [of s h e i j item] by simp
  have "loopFrame s1 (snd (insertItem h e i j item (n, s)))"
    using r insertFailed_loopFrame [of s1 e]
    by (auto simp: insertItem_def loopFrame_def split: sum.splits option.splits jsdate.splits)
  with u show ?thesis by (rule loopFrame_trans)
qed

lemma insertLoop_loopFrame: "loopFrame s (snd (insertLoop h e i j items (n, s)))"
proof (induction items arbitrary: j n s)
  case Nil
  show ?case by simp
next
  case (Cons item rest)
  obtain n1 s1 where a: "insertItem h e i j item (n, s) = (n1, s1)"
    by (cases "insertItem h e i j item (n, s)")
  then have "loopFrame s s1"
    using insertItem_loopFrame [of s h e i j item n] by simp
  moreover have "loopFrame s1 (snd (insertLoop h e i (j + 1) rest (n1, s1)))"
    by (rule Cons.IH)
  ultimately show ?case
    using a by (simp add: loopFrame_trans)
qed

lemma campaignBody_result:
  "fst (campaignBody h e i (id' c) s) =
     (case campaignError h e i c of None \<Rightarrow> Inr () | Some m \<Rightarrow> Inl m)"
  by (simp add: campaignBody_def campaignError_def fetchLogsForCampaign_def
      split: sum.splits prod.splits)

lemma insertLogs_loopFrame:
  assumes "insertLogs h e i ms s = (n, s2)"
  shows "loopFrame s s2"
  using insertLoop_loopFrame [of s h e i 0 ms 0] assms by (simp add: insertLogs_def)

lemma campaignBody_loopFrame: "loopFrame s (snd (campaignBody h e i campaignId s))"
proof -
  define s1 where "s1 = s\<lparr>calls := calls s @ [FetchLogs i campaignId]\<rparr>"
  have a: "loopFrame s s1"
    by (auto simp: s1_def loopFrame_def)
  have b: "loopFrame s (s2\<lparr>logsInserted := logsInserted s2 + n\<rparr>)"
    if "insertLogs h e i ms s1 = (n, s2)" for ms n s2
    using insertLogs_loopFrame [OF that] a by (auto simp: loopFrame_def)
  show ?thesis
    using a b
    by (auto simp: campaignBody_def fetchLogsForCampaign_def s1_def [symmetric]
        split: sum.splits prod.splits)
qed

lemma campaignFailed_loopFrame: "loopFrame s (campaignFailed h e cid m s)"
  by (simp add: loopFrame_def campaignFailed_def nowIso_def)

lemma campaignTurn_loopFrame: "loopFrame s (snd (campaignTurn h e i c (had, s)))"
proof -
  define s1 where "s1 = s\<lparr>currentCampaignId := (if truthyPrim (id' c) then id' c else Null)\<rparr>"
  obtain r s2 where r: "campaignBody h e i (id' c) s1 = (r, s2)"
    by (cases "campaignBody h e i (id' c) s1")
  have "loopFrame s s1"
    by (simp add: s1_def loopFrame_def)
  moreover have "loopFrame s1 s2"
    using campaignBody_loopFrame [of s1 h e i "id' c"] r by simp
  ultimately have a: "loopFrame s s2"
    by (rule loopFrame_trans)
  then have b: "loopFrame s (campaignFailed h e (id' c) m s2)" for m
    using campaignFailed_loopFrame [of s2 h e "id' c" m] by (rule loopFrame_trans)
  show ?thesis
    using a b r
    by (cases r) (simp_all add: campaignTurn_def Let_def s1_def [symmetric] loopFrame_def)
qed

section \<open>The campaign loop and the run\<close>

lemma campaignTurn_flag:
  "fst (campaignTurn h e i c (had, s)) = (had \<or> campaignError h e i c \<noteq> None)"
proof -
  define s1 where "s1 = s\<lparr>currentCampaignId := (if truthyPrim (id' c) then id' c else Null)\<rparr>"
  obtain r s2 where r: "campaignBody h e i (id' c) s1 = (r, s2)"
    by (cases "campaignBody h e i (id' c) s1")
  then have "r = (case campaignError h e i c of None \<Rightarrow> Inr () | Some m \<Rightarrow> Inl m)"
    using campaignBody_result [of h e i c s1] by simp
  then show ?thesis
    using r
    by (cases "campaignError h e i c")
      (simp_all add: campaignTurn_def Let_def s1_def [symmetric])
qed

lemma campaignTurn_progress:
  "campaignsProcessed (snd (campaignTurn h e i c (had, s))) = i + 1
   \<and> progressPercent (snd (campaignTurn h e i c (had, s))) = percentOf (i + 1) (campaignsTotal s)
   \<and> progressBar (snd (campaignTurn h e i c (had, s)))
       = buildProgressBar (percentOf (i + 1) (campaignsTotal s)) None"
proof -
  define s1 where "s1 = s\<lparr>currentCampaignId := (if truthyPrim (id' c) then id' c else Null)\<rparr>"
  obtain r s2 where r: "campaignBody h e i (id' c) s1 = (r, s2)"
    by (cases "campaignBody h e i (id' c) s1")
  have "loopFrame s1 s2"
    using campaignBody_loopFrame [of s1 h e i "id' c"] r by simp
  then have a: "campaignsTotal s2 = campaignsTotal s"
    by (simp add: loopFrame_def s1_def)
  have b: "campaignsTotal (campaignFailed h e (id' c) m s2) = campaignsTotal s" for m
    using campaignFailed_loopFrame [of s2 h e "id' c" m] a by (simp add: loopFrame_def)
  show ?thesis
    using a b r
    by (cases r) (simp_all add: campaignTurn_def Let_def s1_def [symmetric] percentOf_def)
qed

lemma campaignLoop_flag:
  "fst (campaignLoop h e i cs (had, s)) = (had \<or> campaignErrors h e i cs \<noteq> [])"
proof (induction cs arbitrary: i had s)
  case Nil
  show ?case by simp
next
  case (Cons c cs)
  obtain had1 s1 where t: "campaignTurn h e i c (had, s) = (had1, s1)"
    by (cases "campaignTurn h e i c (had, s)")
  then have "had1 = (had \<or> campaignError h e i c \<noteq> None)"
    using campaignTurn_flag [of h e i c had s] by simp
  then show ?case
    using t Cons.IH [of "i + 1" had1 s1] by (auto split: option.splits)
qed

lemma campaignLoop_loopFrame: "loopFrame s (snd (campaignLoop h e i cs (had, s)))"
proof (induction cs arbitrary: i had s)
  case Nil
  show ?case by simp
next
  case (Cons c cs)
  obtain had1 s1 where t: "campaignTurn h e i c (had, s) = (had1, s1)"
    by (cases "campaignTurn h e i c (had, s)")
  then have "loopFrame s s1"
    using campaignTurn_loopFrame [of s h e i c had] by simp
  moreover have "loopFrame s1 (snd (campaignLoop h e (i + 1) cs (had1, s1)))"
    by (rule Cons.IH)
  ultimately show ?case
    using t by (simp add: loopFrame_trans)
qed

lemma campaignLoop_progress:
  assumes "cs \<noteq> []"
  shows "campaignsProcessed (snd (campaignLoop h e i cs (had, s))) = i + length cs
   \<and> progressPercent (snd (campaignLoop h e i cs (had, s)))
       = percentOf (i + length cs) (campaignsTotal s)
   \<and> progressBar (snd (campaignLoop h e i cs (had, s)))
       = buildProgressBar (percentOf (i + length cs) (campaignsTotal s)) None"
  using assms
proof (induction cs arbitrary: i had s)
  case Nil
  then show ?case by simp
next
  case (Cons c cs)
  obtain had1 s1 where t: "campaignTurn h e i c (had, s) = (had1, s1)"
    by (cases "campaignTurn h e i c (had, s)")
  have u: "campaignsTotal s1 = campaignsTotal s"
    using campaignTurn_loopFrame [of s h e i c had] t by (simp add: loopFrame_def)
  show ?case
  proof (cases "cs = []")
    case True
    then show ?thesis
      using campaignTurn_progress [of h e i c had s] t by simp
  next
    case False
    then show ?thesis
      using Cons.IH [of "i + 1" had1 s1] t u by simp
  qed
qed

lemma startRun_fields:
  "running (startRun e s)" "lastSuccessAt (startRun e s) = lastSuccessAt s"
  "lastLogCreatedAt (startRun e s) = lastLogCreatedAt s"
  "poolPromise (startRun e s) = poolPromise s" "calls (startRun e s) = calls s"
  "ticks (startRun e s) = ticks s + 1" "campaignsTotal (startRun e s) = 0"
  "campaignsProcessed (startRun e s) = 0" "progressPercent (startRun e s) = 0"
  "logsInserted (startRun e s) = 0" "logInsertErrors (startRun e s) = 0"
  "lastError (startRun e s) = None" "lastRunFinishedAt (startRun e s) = None"
  "lastRunStartedAt (startRun e s) = Some (clock e (ticks s))"
  "progressBar (startRun e s) = buildProgressBar 0 None"
  by (simp_all add: startRun_def nowIso_def)

lemma topLevelError_startRun [simp]: "topLevelError e (startRun e s) = topLevelError e s"
  by (simp add: topLevelError_def startRun_fields)

lemma runBody_error:
  assumes "topLevelError e s = Some m"
  shows "\<exists>s'. runBody h e s = (Inl m, s') \<and> loopFrame s (s'\<lparr>poolPromise := poolPromise s\<rparr>)
    \<and> campaignsProcessed s' = campaignsProcessed s \<and> progressPercent s' = progressPercent s
    \<and> lastLogCreatedAt s' = lastLogCreatedAt s \<and> ticks s' = ticks s"
  using assms
  by (auto simp: topLevelError_def runBody_def getPool_def fetchCampaigns_def loopFrame_def
      split: if_splits option.splits sum.splits)

lemma runBody_ok:
  assumes "topLevelError e (startRun e s) = None"
  shows "runBody h e (startRun e s) =
     (let (had, s4) = campaignLoop h e 0 (campaignsOf e) (False, loopStart e s);
          s6 = s4\<lparr>ticks := ticks s4 + 1, lastRunFinishedAt := Some (clock e (ticks s4))\<rparr>
      in (Inr (), if \<not> had then s6\<lparr>lastSuccessAt := Some (clock e (ticks s4))\<rparr> else s6))"
  using assms
  by (auto simp: topLevelError_def runBody_def getPool_def fetchCampaigns_def loopStart_def
      campaignsOf_def nowIso_def Let_def
      split: if_splits option.splits sum.splits prod.splits)

lemma loopStart_fields:
  "lastSuccessAt (loopStart e s) = lastSuccessAt s"
  "campaignsTotal (loopStart e s) = length (campaignsOf e)"
  "campaignsProcessed (loopStart e s) = 0"
  "progressPercent (loopStart e s) = 0"
  "progressBar (loopStart e s) = buildProgressBar 0 None"
  "lastLogCreatedAt (loopStart e s) = lastLogCreatedAt s"
  "lastRunStartedAt (loopStart e s) = Some (clock e (ticks s))"
  "logsInserted (loopStart e s) = 0" "logInsertErrors (loopStart e s) = 0"
  "ticks (loopStart e s) = ticks s + 1"
  by (simp_all add: loopStart_def fetchCampaigns_def getPool_def startRun_fields
      split: option.splits)

text \<open>A run that reaches the campaign loop, in terms of the loop's result.\<close>

lemma runOnce_ok:
  assumes "\<not> running s" and "topLevelError e s = None"
  shows "runOnce h e s =
     (let s4 = snd (campaignLoop h e 0 (campaignsOf e) (False, loopStart e s));
          s6 = s4\<lparr>ticks := ticks s4 + 1, lastRunFinishedAt := Some (clock e (ticks s4))\<rparr>
      in (if campaignErrors h e 0 (campaignsOf e) = []
          then s6\<lparr>lastSuccessAt := Some (clock e (ticks s4))\<rparr> else s6)\<lparr>running := False\<rparr>)"
proof -
  obtain had s4 where l: "campaignLoop h e 0 (campaignsOf e) (False, loopStart e s) = (had, s4)"
    by (cases "campaignLoop h e 0 (campaignsOf e) (False, loopStart e s)")
  then have "had = (campaignErrors h e 0 (campaignsOf e) \<noteq> [])"
    using campaignLoop_flag [of h e 0 "campaignsOf e" False "loopStart e s"] by simp
  then show ?thesis
    using assms l runBody_ok [of e s h]
    by (simp add: runOnce_def Let_def)
qed

lemma runOnce_top_error:
  assumes "\<not> running s" and "topLevelError e s = Some m"
  shows "lastSuccessAt (runOnce h e s) = lastSuccessAt s
    \<and> lastError (runOnce h e s) = Some m
    \<and> lastErrorAt (runOnce h e s) = Some (clock e (ticks s + 1))
    \<and> lastRunFinishedAt (runOnce h e s) = Some (clock e (ticks s + 2))
    \<and> campaignsTotal (runOnce h e s) = 0 \<and> campaignsProcessed (runOnce h e s) = 0
    \<and> progressPercent (runOnce h e s) = 0
    \<and> lastLogCreatedAt (runOnce h e s) = lastLogCreatedAt s
    \<and> \<not> running (runOnce h e s)"
proof -
  from assms(2) have "topLevelError e (startRun e s) = Some m"
    by simp
  from runBody_error [OF this, of h] obtain s' where
    s': "runBody h e (startRun e s) = (Inl m, s')"
      "loopFrame (startRun e s) (s'\<lparr>poolPromise := poolPromise (startRun e s)\<rparr>)"
      "campaignsProcessed s' = campaignsProcessed (startRun e s)"
      "progressPercent s' = progressPercent (startRun e s)"
      "lastLogCreatedAt s' = lastLogCreatedAt (startRun e s)"
      "ticks s' = ticks (startRun e s)"
    by blast
  then show ?thesis
    using assms(1)
    by (simp add: runOnce_def Let_def runFailed_def nowIso_def loopFrame_def startRun_fields)
qed

lemma fl_1: "fl 1 = 1"
  by code_simp

lemma fl_100: "fl 100 = 100"
  by code_simp

lemma Math_round_of_int: "Math_round (of_int k) = k"
  by (simp add: Math_round_def floor_eq_iff)

lemma Math_round_100: "Math_round 100 = 100"
  using Math_round_of_int [of 100] by simp

lemma Math_round_0: "Math_round 0 = 0"
  using Math_round_of_int [of 0] by simp

lemma percentOf_all: "0 < n \<Longrightarrow> percentOf n n = 100"
  by (simp add: percentOf_def fl_1 fl_100 Math_round_100)

lemma bar_0: "buildProgressBar 0 None = js ''[--------------------]''"
  by (simp add: buildProgressBar_def fl_def Math_round_0 repeat_def js_def numeral_eq_Suc)

lemma loop_lastSuccessAt:
  "lastSuccessAt (snd (campaignLoop h e 0 cs (had, loopStart e s))) = lastSuccessAt s"
  using campaignLoop_loopFrame [of "loopStart e s" h e 0 cs had]
  by (simp add: loopFrame_def loopStart_fields)

lemma runOnce_finished:
  assumes "\<not> running s"
  shows "lastRunFinishedAt (runOnce h e s) \<noteq> None \<and> \<not> running (runOnce h e s)"
proof (cases "topLevelError e s")
  case None
  with assms show ?thesis by (simp add: runOnce_ok Let_def)
next
  case (Some m)
  with assms show ?thesis using runOnce_top_error [of s e m h] by simp
qed

lemma runOnce_success:
  assumes "\<not> running s" and "topLevelError e s = None"
    and "campaignErrors h e 0 (campaignsOf e) = []"
  shows "lastSuccessAt (runOnce h e s) = lastRunFinishedAt (runOnce h e s)"
  using assms by (simp add: runOnce_ok Let_def)

lemma runOnce_no_success:
  assumes "\<not> running s"
    and "topLevelError e s \<noteq> None \<or> campaignErrors h e 0 (campaignsOf e) \<noteq> []"
  shows "lastSuccessAt (runOnce h e s) = lastSuccessAt s"
proof (cases "topLevelError e s")
  case None
  with assms show ?thesis by (simp add: runOnce_ok Let_def loop_lastSuccessAt)
next
  case (Some m)
  with assms show ?thesis using runOnce_top_error [of s e m h] by simp
qed

text \<open>
  C5.  A run started while no other run is in progress always sets \<open>lastRunFinishedAt\<close>.
  If it met no top-level failure and no campaign-level error, it ends with \<open>lastSuccessAt\<close>
  equal to \<open>lastRunFinishedAt\<close>; if the run failed at the top level, or at least one
  campaign failed, \<open>lastSuccessAt\<close> keeps the value it had before the run.
\<close>

theorem lastSuccessAt_after_run:
  assumes "\<not> running s"
  shows "lastRunFinishedAt (runOnce h e s) \<noteq> None
    \<and> (topLevelError e s = None \<and> campaignErrors h e 0 (campaignsOf e) = []
         \<longrightarrow> lastSuccessAt (runOnce h e s) = lastRunFinishedAt (runOnce h e s))
    \<and> (topLevelError e s \<noteq> None \<or> campaignErrors h e 0 (campaignsOf e) \<noteq> []
         \<longrightarrow> lastSuccessAt (runOnce h e s) = lastSuccessAt s)"
  using assms runOnce_finished [of s h e] runOnce_success [of s e h] runOnce_no_success [of s e h]
  by blast

theorem lastSuccessAt_after_run_witness:
  "\<not> running initialState
   \<and> topLevelError (exampleEnv\<lparr>api_logs := \<lambda>i c. Inr twoLogs\<rparr>) initialState = None
   \<and> campaignErrors hostBRT (exampleEnv\<lparr>api_logs := \<lambda>i c. Inr twoLogs\<rparr>) 0
        (campaignsOf (exampleEnv\<lparr>api_logs := \<lambda>i c. Inr twoLogs\<rparr>)) = []
   \<and> lastSuccessAt (runOnce hostBRT (exampleEnv\<lparr>api_logs := \<lambda>i c. Inr twoLogs\<rparr>) initialState)
       = lastRunFinishedAt
           (runOnce hostBRT (exampleEnv\<lparr>api_logs := \<lambda>i c. Inr twoLogs\<rparr>) initialState)
   \<and> lastRunFinishedAt
        (runOnce hostBRT (exampleEnv\<lparr>api_logs := \<lambda>i c. Inr twoLogs\<rparr>) initialState) \<noteq> None
   \<and> campaignErrors hostBRT exampleEnv 0 (campaignsOf exampleEnv) \<noteq> []
   \<and> lastSuccessAt (runOnce hostBRT exampleEnv (initialState\<lparr>lastSuccessAt := Some 1700000000000\<rparr>))
       = Some 1700000000000
   \<and> topLevelError (exampleEnv\<lparr>token := Undefined\<rparr>) initialState \<noteq> None
   \<and> lastSuccessAt (runOnce hostBRT (exampleEnv\<lparr>token := Undefined\<rparr>) initialState) = None"
proof -
  have a: "\<not> running initialState" "\<not> running (initialState\<lparr>lastSuccessAt := Some 1700000000000\<rparr>)"
    by (simp_all add: initialState_def)
  have b: "topLevelError (exampleEnv\<lparr>api_logs := \<lambda>i c. Inr twoLogs\<rparr>) initialState = None"
    by code_simp
  have c: "campaignErrors hostBRT (exampleEnv\<lparr>api_logs := \<lambda>i c. Inr twoLogs\<rparr>) 0
        (campaignsOf (exampleEnv\<lparr>api_logs := \<lambda>i c. Inr twoLogs\<rparr>)) = []"
    by code_simp
  have d: "campaignErrors hostBRT exampleEnv 0 (campaignsOf exampleEnv) \<noteq> []"
    by code_simp
  have f: "topLevelError (exampleEnv\<lparr>token := Undefined\<rparr>) initialState \<noteq> None"
    by code_simp
  show ?thesis
    using a b c d f
      lastSuccessAt_after_run [OF a(1), of hostBRT "exampleEnv\<lparr>api_logs := \<lambda>i c. Inr twoLogs\<rparr>"]
      lastSuccessAt_after_run [OF a(2), of hostBRT exampleEnv]
      lastSuccessAt_after_run [OF a(1), of hostBRT "exampleEnv\<lparr>token := Undefined\<rparr>"]
    by (simp add: initialState_def)
qed

text \<open>
  The percentage is computed in double arithmetic: after 29 of 200 campaigns the quotient
  0.145 times 100 is 14.499999999999998, which rounds to 14, where exact arithmetic would
  round 14.5 to 15.
\<close>

lemma percentOf_29_200: "percentOf 29 200 = 14"
  by code_simp

text \<open>A run over at least one campaign ends with every campaign counted and 100 percent.\<close>

lemma runOnce_progress_nonempty:
  assumes "\<not> running s" and "topLevelError e s = None" and "campaignsOf e \<noteq> []"
  shows "campaignsTotal (runOnce h e s) = length (campaignsOf e)
    \<and> campaignsProcessed (runOnce h e s) = length (campaignsOf e)
    \<and> progressPercent (runOnce h e s) = 100"
proof -
  have "loopFrame (loopStart e s) (snd (campaignLoop h e 0 (campaignsOf e) (False, loopStart e s)))"
    by (rule campaignLoop_loopFrame)
  then have "campaignsTotal (snd (campaignLoop h e 0 (campaignsOf e) (False, loopStart e s)))
      = length (campaignsOf e)"
    by (simp add: loopFrame_def loopStart_fields)
  then show ?thesis
    using assms campaignLoop_progress [OF assms(3), of h e 0 False "loopStart e s"]
    by (simp add: runOnce_ok Let_def loopStart_fields percentOf_all)
qed

text \<open>A run over an empty list of campaigns never enters the loop: progress stays at the
  values of the reset.\<close>

lemma runOnce_progress_empty:
  assumes "\<not> running s" and "topLevelError e s = None" and "campaignsOf e = []"
  shows "campaignsTotal (runOnce h e s) = 0 \<and> campaignsProcessed (runOnce h e s) = 0
    \<and> progressPercent (runOnce h e s) = 0
    \<and> progressBar (runOnce h e s) = js ''[--------------------]''
    \<and> lastError (runOnce h e s) = None
    \<and> lastSuccessAt (runOnce h e s) = lastRunFinishedAt (runOnce h e s)
    \<and> lastRunFinishedAt (runOnce h e s) \<noteq> None"
  using assms
  by (simp add: runOnce_ok Let_def loopStart_fields bar_0 loopStart_def fetchCampaigns_def
      getPool_def startRun_fields split: option.splits)

text \<open>
  C1.  With a token, a working connection and an empty \<open>campanhas\<close> table, the run completes
  successfully with \<open>campaignsTotal\<close> 0, and \<open>progressPercent\<close> is 0 at its end, with an empty
  bar: the branch of the source that yields 100 for a total of 0 stands inside the loop
  body, which an empty list never enters.
\<close>

theorem progress_after_empty_run:
  "campaignsTotal (runOnce hostBRT (exampleEnv\<lparr>query_campanhas := Inr []\<rparr>) initialState) = 0
   \<and> campaignsProcessed (runOnce hostBRT (exampleEnv\<lparr>query_campanhas := Inr []\<rparr>) initialState) = 0
   \<and> progressPercent (runOnce hostBRT (exampleEnv\<lparr>query_campanhas := Inr []\<rparr>) initialState) = 0
   \<and> progressBar (runOnce hostBRT (exampleEnv\<lparr>query_campanhas := Inr []\<rparr>) initialState)
       = js ''[--------------------]''
   \<and> lastError (runOnce hostBRT (exampleEnv\<lparr>query_campanhas := Inr []\<rparr>) initialState) = None
   \<and> lastSuccessAt (runOnce hostBRT (exampleEnv\<lparr>query_campanhas := Inr []\<rparr>) initialState)
       = lastRunFinishedAt (runOnce hostBRT (exampleEnv\<lparr>query_campanhas := Inr []\<rparr>) initialState)
   \<and> lastRunFinishedAt (runOnce hostBRT (exampleEnv\<lparr>query_campanhas := Inr []\<rparr>) initialState)
       \<noteq> None"
proof -
  have "\<not> running initialState"
    by (simp add: initialState_def)
  moreover have "topLevelError (exampleEnv\<lparr>query_campanhas := Inr []\<rparr>) initialState = None"
    by code_simp
  moreover have "campaignsOf (exampleEnv\<lparr>query_campanhas := Inr []\<rparr>) = []"
    by (simp add: campaignsOf_def)
  ultimately show ?thesis
    by (rule runOnce_progress_empty)
qed

section \<open>Insert failures\<close>

lemma insertLog_result:
  "fst (insertLog h e i j item s) =
     (case insertError h e i j item of None \<Rightarrow> Inr () | Some m \<Rightarrow> Inl m)"
  by (simp add: insertLog_def insertError_def split: sum.splits)

lemma insertLog_fields:
  "logInsertErrors (snd (insertLog h e i j item s)) = logInsertErrors s"
  "logsInserted (snd (insertLog h e i j item s)) = logsInserted s"
  "lastLogCreatedAt (snd (insertLog h e i j item s)) = lastLogCreatedAt s"
  "ticks (snd (insertLog h e i j item s)) = ticks s"
  "lastError (snd (insertLog h e i j item s)) = lastError s"
  using insertLog_state [of h e i j item s] by auto

lemma insertFailed_fields:
  "logInsertErrors (insertFailed e m s) = logInsertErrors s + 1"
  "lastError (insertFailed e m s) = Some (js ''Insert failed: '' @ m)"
  "lastErrorAt (insertFailed e m s) = Some (clock e (ticks s))"
  "logsInserted (insertFailed e m s) = logsInserted s"
  "lastLogCreatedAt (insertFailed e m s) = lastLogCreatedAt s"
  "ticks (insertFailed e m s) = ticks s + 1"
  by (simp_all add: insertFailed_def nowIso_def)

lemma insertItem_failure:
  assumes "insertError h e i j item = Some m"
  shows "\<exists>s'. insertItem h e i j item (inserted, s) = (inserted, s')
    \<and> logInsertErrors s' = logInsertErrors s + 1
    \<and> lastError s' = Some (js ''Insert failed: '' @ m)
    \<and> lastErrorAt s' = Some (clock e (ticks s))
    \<and> logsInserted s' = logsInserted s
    \<and> lastLogCreatedAt s' = lastLogCreatedAt s"
proof -
  obtain r s1 where r: "insertLog h e i j item s = (r, s1)"
    by (cases "insertLog h e i j item s")
  then have "r = Inl m"
    using insertLog_result [of h e i j item s] assms by simp
  then show ?thesis
    using r insertLog_fields [of h e i j item s]
    by (simp add: insertItem_def insertFailed_fields)
qed

lemma insertItem_success:
  assumes "insertError h e i j item = None"
  shows "fst (insertItem h e i j item (inserted, s)) = inserted + 1"
proof -
  obtain r s1 where r: "insertLog h e i j item s = (r, s1)"
    by (cases "insertLog h e i j item s")
  then have "r = Inr ()"
    using insertLog_result [of h e i j item s] assms by simp
  then show ?thesis
    using r by (simp add: insertItem_def split: option.splits jsdate.splits)
qed

lemma insertErrors_le: "insertErrors h e i j items \<le> length items"
proof (induction items arbitrary: j)
  case Nil
  show ?case by simp
next
  case (Cons item rest)
  from Cons.IH [of "j + 1"] show ?case by simp
qed

lemma insertLoop_count:
  "fst (insertLoop h e i j items (n, s)) + insertErrors h e i j items = n + length items"
proof (induction items arbitrary: j n s)
  case Nil
  show ?case by simp
next
  case (Cons item rest)
  obtain n1 s1 where a: "insertItem h e i j item (n, s) = (n1, s1)"
    by (cases "insertItem h e i j item (n, s)")
  show ?case
  proof (cases "insertError h e i j item")
    case None
    then have "n1 = n + 1"
      using insertItem_success [of h e i j item n s] a by simp
    then show ?thesis
      using Cons.IH [of "j + 1" n1 s1] a None by simp
  next
    case (Some m)
    then have "n1 = n"
      using insertItem_failure [of h e i j item m n s] a by auto
    then show ?thesis
      using Cons.IH [of "j + 1" n1 s1] a Some by simp
  qed
qed

lemma insertLoop_inserted:
  "fst (insertLoop h e i j items (n, s)) = n + (length items - insertErrors h e i j items)"
  using insertLoop_count [of h e i j items n s] insertErrors_le [of h e i j items] by simp

lemma campaignTurn_no_error:
  assumes "campaignError h e i c = None"
  shows "fst (campaignTurn h e i c (had, s)) = had"
  using assms by (simp add: campaignTurn_flag)

text \<open>
  C4.  When \<open>insertLog\<close> raises an error for a record, that turn of the loop leaves the
  local count of inserted records and \<open>logsInserted\<close> as they were, adds exactly 1 to
  \<open>logInsertErrors\<close>, and overwrites \<open>lastError\<close> (with "Insert failed: " and the message)
  and \<open>lastErrorAt\<close>.  The loop goes on with the next record: every later record whose
  insert succeeds is still counted.  Insert failures are no campaign-level error: a
  campaign whose request and mapping succeed leaves the flag \<open>runHadError\<close> as it was, and a
  run without top-level and campaign-level errors ends with \<open>lastSuccessAt\<close> set to
  \<open>lastRunFinishedAt\<close>, whatever its inserts did.
\<close>

theorem insert_failure_isolated:
  assumes "insertError h e i j item = Some m"
  shows "(\<exists>s'. insertItem h e i j item (inserted, s) = (inserted, s')
          \<and> logInsertErrors s' = logInsertErrors s + 1
          \<and> lastError s' = Some (js ''Insert failed: '' @ m)
          \<and> lastErrorAt s' = Some (clock e (ticks s))
          \<and> logsInserted s' = logsInserted s)
    \<and> insertLoop h e i j (item # rest) (inserted, s)
        = insertLoop h e i (j + 1) rest (insertItem h e i j item (inserted, s))
    \<and> fst (insertLoop h e i j (item # rest) (inserted, s))
        = inserted + (length rest - insertErrors h e i (j + 1) rest)
    \<and> (\<forall>c had st. campaignError h e i c = None \<longrightarrow> fst (campaignTurn h e i c (had, st)) = had)
    \<and> (\<not> running s0 \<and> topLevelError e s0 = None \<and> campaignErrors h e 0 (campaignsOf e) = []
         \<longrightarrow> lastSuccessAt (runOnce h e s0) = lastRunFinishedAt (runOnce h e s0))"
proof -
  from insertItem_failure [OF assms, of inserted s] obtain s' where
    s': "insertItem h e i j item (inserted, s) = (inserted, s')"
      "logInsertErrors s' = logInsertErrors s + 1"
      "lastError s' = Some (js ''Insert failed: '' @ m)"
      "lastErrorAt s' = Some (clock e (ticks s))"
      "logsInserted s' = logsInserted s"
    by blast
  have "fst (insertLoop h e i j (item # rest) (inserted, s))
        = inserted + (length rest - insertErrors h e i (j + 1) rest)"
    using s'(1) insertLoop_inserted [of h e i "j + 1" rest inserted s'] by simp
  then show ?thesis
    using s' campaignTurn_no_error [of h e i] runOnce_success [of s0 e h]
    by simp
qed

theorem insert_failure_isolated_witness:
  "insertError hostBRT
     (exampleEnv\<lparr>api_logs := \<lambda>i c. Inr twoLogs,
                  sql_insert := \<lambda>i j p. if j = 1 then Inl (js ''deadlock'') else Inr ()\<rparr>)
     0 1
     \<lparr> status = Prim (Str (js ''failed'')), destino = Prim Null, log_id = Prim Null,
       departamento = Prim Null, template_name = Prim Null, contact_name = Prim Null,
       createdAt = None \<rparr>
    = Some (js ''deadlock'')
   \<and> (\<exists>s'. insertItem hostBRT
          (exampleEnv\<lparr>api_logs := \<lambda>i c. Inr twoLogs,
                       sql_insert := \<lambda>i j p. if j = 1 then Inl (js ''deadlock'') else Inr ()\<rparr>)
          0 1
          \<lparr> status = Prim (Str (js ''failed'')), destino = Prim Null, log_id = Prim Null,
            departamento = Prim Null, template_name = Prim Null, contact_name = Prim Null,
            createdAt = None \<rparr>
          (1, initialState) = (1, s')
        \<and> logInsertErrors s' = 1
        \<and> lastError s' = Some (js ''Insert failed: deadlock'')
        \<and> lastErrorAt s' = Some 1704110400000
        \<and> logsInserted s' = 0)
   \<and> campaignError hostBRT
        (exampleEnv\<lparr>api_logs := \<lambda>i c. Inr twoLogs,
                     sql_insert := \<lambda>i j p. if j = 1 then Inl (js ''deadlock'') else Inr ()\<rparr>)
        0 \<lparr>id' = Num (Fin 1)\<rparr> = None
   \<and> fst (campaignTurn hostBRT
        (exampleEnv\<lparr>api_logs := \<lambda>i c. Inr twoLogs,
                     sql_insert := \<lambda>i j p. if j = 1 then Inl (js ''deadlock'') else Inr ()\<rparr>)
        0 \<lparr>id' = Num (Fin 1)\<rparr> (False, initialState)) = False
   \<and> \<not> running initialState
   \<and> topLevelError
        (exampleEnv\<lparr>api_logs := \<lambda>i c. Inr twoLogs,
                     sql_insert := \<lambda>i j p. if j = 1 then Inl (js ''deadlock'') else Inr ()\<rparr>)
        initialState = None
   \<and> campaignErrors hostBRT
        (exampleEnv\<lparr>api_logs := \<lambda>i c. Inr twoLogs,
                     sql_insert := \<lambda>i j p. if j = 1 then Inl (js ''deadlock'') else Inr ()\<rparr>)
        0
        (campaignsOf
          (exampleEnv\<lparr>api_logs := \<lambda>i c. Inr twoLogs,
                       sql_insert := \<lambda>i j p. if j = 1 then Inl (js ''deadlock'') else Inr ()\<rparr>))
       = []
   \<and> lastSuccessAt
        (runOnce hostBRT
          (exampleEnv\<lparr>api_logs := \<lambda>i c. Inr twoLogs,
                       sql_insert := \<lambda>i j p. if j = 1 then Inl (js ''deadlock'') else Inr ()\<rparr>)
          initialState)
       = lastRunFinishedAt
           (runOnce hostBRT
             (exampleEnv\<lparr>api_logs := \<lambda>i c. Inr twoLogs,
                          sql_insert := \<lambda>i j p. if j = 1 then Inl (js ''deadlock'') else Inr ()\<rparr>)
             initialState)"
proof -
  define e where "e = exampleEnv\<lparr>api_logs := \<lambda>i c. Inr twoLogs,
                  sql_insert := \<lambda>i j p. if j = 1 then Inl (js ''deadlock'') else Inr ()\<rparr>"
  define item where "item = \<lparr> status = Prim (Str (js ''failed'')), destino = Prim Null,
       log_id = Prim Null, departamento = Prim Null, template_name = Prim Null,
       contact_name = Prim Null, createdAt = None \<rparr>"
  have a: "insertError hostBRT e 0 1 item = Some (js ''deadlock'')"
    unfolding e_def item_def by code_simp
  have b: "\<not> running initialState"
    by (simp add: initialState_def)
  have c: "topLevelError e initialState = None"
    unfolding e_def by code_simp
  have d: "campaignErrors hostBRT e 0 (campaignsOf e) = []"
    unfolding e_def by code_simp
  have f: "clock e 0 = 1704110400000" "ticks initialState = 0" "logInsertErrors initialState = 0"
    "logsInserted initialState = 0"
    by (simp_all add: e_def exampleEnv_def initialState_def)
  note t = insert_failure_isolated [OF a, of 1 initialState "[]" initialState]
  have "\<exists>s'. insertItem hostBRT e 0 1 item (1, initialState) = (1, s')
        \<and> logInsertErrors s' = 1
        \<and> lastError s' = Some (js ''Insert failed: deadlock'')
        \<and> lastErrorAt s' = Some 1704110400000
        \<and> logsInserted s' = 0"
    using t [THEN conjunct1] f by (simp add: js_append [symmetric])
  moreover have "lastSuccessAt (runOnce hostBRT e initialState)
      = lastRunFinishedAt (runOnce hostBRT e initialState)"
    using t b c d by blast
  moreover have g: "campaignError hostBRT e 0 \<lparr>id' = Num (Fin 1)\<rparr> = None"
    unfolding e_def by code_simp
  moreover from t have "\<forall>c had st. campaignError hostBRT e 0 c = None \<longrightarrow>
      fst (campaignTurn hostBRT e 0 c (had, st)) = had"
    by (elim conjE)
  from this [rule_format, OF g]
  have "fst (campaignTurn hostBRT e 0 \<lparr>id' = Num (Fin 1)\<rparr> (False, initialState)) = False" .
  ultimately show ?thesis
    using a b c d unfolding e_def item_def by (intro conjI)
qed

section \<open>Campaign failures\<close>

lemma campaignBody_error_state:
  assumes "campaignError h e i c = Some m"
  shows "campaignBody h e i (id' c) s =
     (Inl m, if truthyPrim (id' c) then s\<lparr>calls := calls s @ [FetchLogs i (id' c)]\<rparr> else s)"
  using assms
  by (auto simp: campaignBody_def campaignError_def fetchLogsForCampaign_def
      split: if_splits sum.splits)

lemma campaignTurn_failure:
  assumes "campaignError h e i c = Some m"
  shows "\<exists>s'. campaignTurn h e i c (had, s) = (True, s')
    \<and> campaignsProcessed s' = i + 1
    \<and> lastError s' = Some (js ''Campaign '' @ primToString h (id' c) @ js '' failed: '' @ m)
    \<and> lastErrorAt s' = Some (clock e (ticks s))
    \<and> logsInserted s' = logsInserted s
    \<and> logInsertErrors s' = logInsertErrors s"
  by (simp add: campaignTurn_def Let_def campaignBody_error_state [OF assms]
      campaignFailed_def nowIso_def)

lemma campaignLoop_append:
  "campaignLoop h e i (xs @ ys) acc
     = campaignLoop h e (i + length xs) ys (campaignLoop h e i xs acc)"
  by (induction xs arbitrary: i acc) simp_all

lemma campaignLoop_split:
  assumes "k < length cs"
  shows "campaignLoop h e 0 cs acc
     = campaignLoop h e (k + 1) (drop (k + 1) cs)
         (campaignTurn h e k (cs ! k) (campaignLoop h e 0 (take k cs) acc))"
proof -
  have "cs = take k cs @ (cs ! k) # drop (k + 1) cs"
    using assms by (simp add: id_take_nth_drop)
  then have "campaignLoop h e 0 cs acc
      = campaignLoop h e 0 (take k cs @ (cs ! k) # drop (k + 1) cs) acc"
    by simp
  also have "\<dots> = campaignLoop h e (k + 1) (drop (k + 1) cs)
         (campaignTurn h e k (cs ! k) (campaignLoop h e 0 (take k cs) acc))"
    using assms by (simp add: campaignLoop_append min_def)
  finally show ?thesis .
qed

lemma campaignLoop_processed_prefix:
  assumes "k \<le> length cs" and "campaignsProcessed s = 0"
  shows "campaignsProcessed (snd (campaignLoop h e 0 (take k cs) (had, s))) = k"
proof (cases "take k cs = []")
  case True
  with assms show ?thesis by auto
next
  case False
  from campaignLoop_progress [OF False, of h e 0 had s] assms(1) show ?thesis
    by (simp add: min_def)
qed

lemma campaignBody_calls:
  assumes "truthyPrim campaignId"
  shows "FetchLogs i campaignId \<in> set (calls (snd (campaignBody h e i campaignId s)))"
proof -
  define s1 where "s1 = s\<lparr>calls := calls s @ [FetchLogs i campaignId]\<rparr>"
  have a: "FetchLogs i campaignId \<in> set (calls s1)"
    by (simp add: s1_def)
  have b: "FetchLogs i campaignId \<in> set (calls (s2\<lparr>logsInserted := logsInserted s2 + n\<rparr>))"
    if "insertLogs h e i ms s1 = (n, s2)" for ms n s2
    using insertLogs_loopFrame [OF that] a by (auto simp: loopFrame_def)
  show ?thesis
    using assms a b
    by (auto simp: campaignBody_def fetchLogsForCampaign_def s1_def [symmetric]
        split: sum.splits prod.splits)
qed

lemma campaignTurn_calls:
  assumes "truthyPrim (id' c)"
  shows "FetchLogs i (id' c) \<in> set (calls (snd (campaignTurn h e i c (had, s))))"
proof -
  define s1 where "s1 = s\<lparr>currentCampaignId := (if truthyPrim (id' c) then id' c else Null)\<rparr>"
  obtain r s2 where r: "campaignBody h e i (id' c) s1 = (r, s2)"
    by (cases "campaignBody h e i (id' c) s1")
  then have a: "FetchLogs i (id' c) \<in> set (calls s2)"
    using campaignBody_calls [OF assms, of i h e s1] by simp
  then have b: "FetchLogs i (id' c) \<in> set (calls (campaignFailed h e (id' c) m s2))" for m
    using campaignFailed_loopFrame [of s2 h e "id' c" m] by (auto simp: loopFrame_def)
  show ?thesis
    using a b r
    by (cases r) (simp_all add: campaignTurn_def Let_def s1_def [symmetric])
qed

lemma campaignLoop_calls:
  assumes "k < length cs" and "truthyPrim (id' (cs ! k))"
  shows "FetchLogs (i + k) (id' (cs ! k)) \<in> set (calls (snd (campaignLoop h e i cs (had, s))))"
  using assms
proof (induction cs arbitrary: i k had s)
  case Nil
  then show ?case by simp
next
  case (Cons c cs)
  obtain had1 s1 where t: "campaignTurn h e i c (had, s) = (had1, s1)"
    by (cases "campaignTurn h e i c (had, s)")
  show ?case
  proof (cases k)
    case 0
    then have "FetchLogs (i + k) (id' ((c # cs) ! k)) \<in> set (calls s1)"
      using campaignTurn_calls [of c i h e had s] Cons.prems t by simp
    moreover have "loopFrame s1 (snd (campaignLoop h e (i + 1) cs (had1, s1)))"
      by (rule campaignLoop_loopFrame)
    ultimately show ?thesis
      using t by (auto simp: loopFrame_def)
  next
    case (Suc k')
    then show ?thesis
      using Cons.IH [where k = k' and i = "i + 1" and had = had1 and s = s1] Cons.prems t by simp
  qed
qed

lemma runOnce_calls:
  assumes "\<not> running s" and "topLevelError e s = None"
  shows "calls (runOnce h e s)
     = calls (snd (campaignLoop h e 0 (campaignsOf e) (False, loopStart e s)))"
    and "lastError (runOnce h e s)
     = lastError (snd (campaignLoop h e 0 (campaignsOf e) (False, loopStart e s)))"
  using assms by (simp_all add: runOnce_ok Let_def)

lemma campaignLoop_lastError:
  assumes "k < length cs" and "campaignError h e (i + k) (cs ! k) = Some m"
  shows "lastError (snd (campaignLoop h e i cs (had, s))) \<noteq> None"
  using assms
proof (induction cs arbitrary: i k had s)
  case Nil
  then show ?case by simp
next
  case (Cons c cs)
  obtain had1 s1 where t: "campaignTurn h e i c (had, s) = (had1, s1)"
    by (cases "campaignTurn h e i c (had, s)")
  show ?case
  proof (cases k)
    case 0
    then have "lastError s1 \<noteq> None"
      using campaignTurn_failure [of h e i c m had s] Cons.prems t by auto
    moreover have "loopFrame s1 (snd (campaignLoop h e (i + 1) cs (had1, s1)))"
      by (rule campaignLoop_loopFrame)
    ultimately show ?thesis
      using t by (auto simp: loopFrame_def)
  next
    case (Suc k')
    then show ?thesis
      using Cons.IH [where k = k' and i = "i + 1" and had = had1 and s = s1] Cons.prems t by simp
  qed
qed

lemma campaignErrors_nonempty:
  assumes "k < length cs" and "campaignError h e (i + k) (cs ! k) = Some m"
  shows "campaignErrors h e i cs \<noteq> []"
  using assms
proof (induction cs arbitrary: i k)
  case Nil
  then show ?case by simp
next
  case (Cons c cs)
  show ?case
  proof (cases k)
    case 0
    with Cons.prems show ?thesis by simp
  next
    case (Suc k')
    then show ?thesis
      using Cons.IH [where k = k' and i = "i + 1"] Cons.prems by simp
  qed
qed

text \<open>
  C3.  Let the campaign at position \<open>k\<close> of the list fail at campaign level (it has no id,
  its log request fails, or mapping its response raises).  Its turn of the loop sets the
  flag \<open>runHadError\<close>, stores "Campaign <id> failed: <message>" in \<open>lastError\<close> and the
  instant read from the clock in \<open>lastErrorAt\<close>, inserts nothing, and moves
  \<open>campaignsProcessed\<close> from \<open>k\<close> to \<open>k + 1\<close>.  The loop then goes on with the campaigns after
  it: the log request of every campaign that has an id is issued, and the run ends with
  \<open>campaignsProcessed\<close> equal to \<open>campaignsTotal\<close>, the length of the list, with an error
  recorded and with \<open>lastSuccessAt\<close> as it was before the run.
\<close>

theorem campaign_failure_isolated:
  assumes "\<not> running s" and "topLevelError e s = None"
    and "k < length (campaignsOf e)"
    and "campaignError h e k (campaignsOf e ! k) = Some m"
  shows "(\<forall>had st. \<exists>st'.
            campaignTurn h e k (campaignsOf e ! k) (had, st) = (True, st')
          \<and> campaignsProcessed st' = k + 1
          \<and> lastError st' =
              Some (js ''Campaign '' @ primToString h (id' (campaignsOf e ! k))
                    @ js '' failed: '' @ m)
          \<and> lastErrorAt st' = Some (clock e (ticks st))
          \<and> logsInserted st' = logsInserted st)
    \<and> campaignsProcessed
         (snd (campaignLoop h e 0 (take k (campaignsOf e)) (False, loopStart e s))) = k
    \<and> (\<forall>acc. campaignLoop h e 0 (campaignsOf e) acc
          = campaignLoop h e (k + 1) (drop (k + 1) (campaignsOf e))
              (campaignTurn h e k (campaignsOf e ! k)
                (campaignLoop h e 0 (take k (campaignsOf e)) acc)))
    \<and> (\<forall>j < length (campaignsOf e). truthyPrim (id' (campaignsOf e ! j)) \<longrightarrow>
          FetchLogs j (id' (campaignsOf e ! j)) \<in> set (calls (runOnce h e s)))
    \<and> campaignsTotal (runOnce h e s) = length (campaignsOf e)
    \<and> campaignsProcessed (runOnce h e s) = length (campaignsOf e)
    \<and> lastError (runOnce h e s) \<noteq> None
    \<and> lastSuccessAt (runOnce h e s) = lastSuccessAt s"
proof -
  let ?cs = "campaignsOf e"
  have ne: "?cs \<noteq> []"
    using assms(3) by auto
  have a: "\<forall>had st. \<exists>st'.
            campaignTurn h e k (?cs ! k) (had, st) = (True, st')
          \<and> campaignsProcessed st' = k + 1
          \<and> lastError st' =
              Some (js ''Campaign '' @ primToString h (id' (?cs ! k)) @ js '' failed: '' @ m)
          \<and> lastErrorAt st' = Some (clock e (ticks st))
          \<and> logsInserted st' = logsInserted st"
    using campaignTurn_failure [OF assms(4)] by blast
  have b: "campaignsProcessed (snd (campaignLoop h e 0 (take k ?cs) (False, loopStart e s))) = k"
    using assms(3) by (simp add: campaignLoop_processed_prefix loopStart_fields)
  have c: "\<forall>acc. campaignLoop h e 0 ?cs acc
          = campaignLoop h e (k + 1) (drop (k + 1) ?cs)
              (campaignTurn h e k (?cs ! k) (campaignLoop h e 0 (take k ?cs) acc))"
    using campaignLoop_split [OF assms(3)] by blast
  have d: "\<forall>j < length ?cs. truthyPrim (id' (?cs ! j)) \<longrightarrow>
          FetchLogs j (id' (?cs ! j)) \<in> set (calls (runOnce h e s))"
    using campaignLoop_calls [of _ ?cs 0 h e False "loopStart e s"]
      runOnce_calls(1) [OF assms(1,2), of h]
    by simp
  have f: "campaignsTotal (runOnce h e s) = length ?cs
      \<and> campaignsProcessed (runOnce h e s) = length ?cs"
    using runOnce_progress_nonempty [OF assms(1,2) ne] by simp
  have g: "lastError (runOnce h e s) \<noteq> None"
    using campaignLoop_lastError [of k ?cs h e 0 m False "loopStart e s"] assms(3,4)
      runOnce_calls(2) [OF assms(1,2), of h]
    by simp
  have "campaignErrors h e 0 ?cs \<noteq> []"
    using campaignErrors_nonempty [of k ?cs h e 0 m] assms(3,4) by simp
  then have i: "lastSuccessAt (runOnce h e s) = lastSuccessAt s"
    using runOnce_no_success [OF assms(1)] by blast
  from a b c d f g i show ?thesis by blast
qed

theorem campaign_failure_isolated_witness:
  "\<not> running initialState
   \<and> topLevelError exampleEnv initialState = None
   \<and> 1 < length (campaignsOf exampleEnv)
   \<and> campaignError hostBRT exampleEnv 1 (campaignsOf exampleEnv ! 1) = Some (js ''API 500'')
   \<and> (\<exists>st'. campaignTurn hostBRT exampleEnv 1 (campaignsOf exampleEnv ! 1) (False, initialState)
               = (True, st')
        \<and> campaignsProcessed st' = 2
        \<and> lastError st' = Some (js ''Campaign 2 failed: API 500'')
        \<and> lastErrorAt st' = Some 1704110400000
        \<and> logsInserted st' = 0)
   \<and> FetchLogs 2 (Num (Fin 3)) \<in> set (calls (runOnce hostBRT exampleEnv initialState))
   \<and> campaignsTotal (runOnce hostBRT exampleEnv initialState) = 3
   \<and> campaignsProcessed (runOnce hostBRT exampleEnv initialState) = 3
   \<and> lastError (runOnce hostBRT exampleEnv initialState) \<noteq> None
   \<and> lastSuccessAt (runOnce hostBRT exampleEnv initialState) = None"
proof -
  have a: "\<not> running initialState"
    by (simp add: initialState_def)
  have b: "topLevelError exampleEnv initialState = None"
    by code_simp
  have cs: "campaignsOf exampleEnv = [\<lparr>id' = Num (Fin 1)\<rparr>, \<lparr>id' = Num (Fin 2)\<rparr>, \<lparr>id' = Num (Fin 3)\<rparr>]"
    by (simp add: campaignsOf_def exampleEnv_def)
  have c: "1 < length (campaignsOf exampleEnv)"
    by (simp add: cs)
  have d: "campaignError hostBRT exampleEnv 1 (campaignsOf exampleEnv ! 1) = Some (js ''API 500'')"
    by code_simp
  have n: "primToString hostBRT (Num (Fin 2)) = js ''2''"
    by code_simp
  note t = campaign_failure_isolated [OF a b c d]
  have "\<exists>st'. campaignTurn hostBRT exampleEnv 1 (campaignsOf exampleEnv ! 1) (False, initialState)
               = (True, st')
        \<and> campaignsProcessed st' = 2
        \<and> lastError st' = Some (js ''Campaign 2 failed: API 500'')
        \<and> lastErrorAt st' = Some 1704110400000
        \<and> logsInserted st' = 0"
  proof -
    from t [THEN conjunct1, rule_format, of False initialState] obtain st' where
      st: "campaignTurn hostBRT exampleEnv 1 (campaignsOf exampleEnv ! 1) (False, initialState)
             = (True, st')"
        "campaignsProcessed st' = 1 + 1"
        "lastError st' =
           Some (js ''Campaign '' @ primToString hostBRT (id' (campaignsOf exampleEnv ! 1))
                 @ js '' failed: '' @ js ''API 500'')"
        "lastErrorAt st' = Some (clock exampleEnv (ticks initialState))"
        "logsInserted st' = logsInserted initialState"
      by blast
    have i: "primToString hostBRT (id' (campaignsOf exampleEnv ! 1)) = js ''2''"
      using n by (simp add: cs)
    have k: "clock exampleEnv (ticks initialState) = 1704110400000"
      "logsInserted initialState = 0"
      by (simp_all add: exampleEnv_def initialState_def)
    have "js ''Campaign '' @ js ''2'' @ js '' failed: '' @ js ''API 500''
        = js ''Campaign 2 failed: API 500''"
      by (simp add: js_append [symmetric])
    then have "lastError st' = Some (js ''Campaign 2 failed: API 500'')"
      using st(3) by (simp only: i)
    then show ?thesis
      using st k by simp
  qed
  moreover have "FetchLogs 2 (Num (Fin 3))
      \<in> set (calls (runOnce hostBRT exampleEnv initialState))"
  proof -
    from t have "\<forall>j < length (campaignsOf exampleEnv).
        truthyPrim (id' (campaignsOf exampleEnv ! j)) \<longrightarrow>
          FetchLogs j (id' (campaignsOf exampleEnv ! j))
            \<in> set (calls (runOnce hostBRT exampleEnv initialState))"
      by blast
    from this [rule_format, of 2] show ?thesis
      by (simp add: cs)
  qed
  moreover have "campaignsTotal (runOnce hostBRT exampleEnv initialState) = 3"
    "campaignsProcessed (runOnce hostBRT exampleEnv initialState) = 3"
    "lastError (runOnce hostBRT exampleEnv initialState) \<noteq> None"
    "lastSuccessAt (runOnce hostBRT exampleEnv initialState) = None"
  proof -
    from t have "campaignsTotal (runOnce hostBRT exampleEnv initialState)
        = length (campaignsOf exampleEnv)"
      "campaignsProcessed (runOnce hostBRT exampleEnv initialState)
        = length (campaignsOf exampleEnv)"
      "lastError (runOnce hostBRT exampleEnv initialState) \<noteq> None"
      "lastSuccessAt (runOnce hostBRT exampleEnv initialState) = lastSuccessAt initialState"
      by blast+
    then show "campaignsTotal (runOnce hostBRT exampleEnv initialState) = 3"
      "campaignsProcessed (runOnce hostBRT exampleEnv initialState) = 3"
      "lastError (runOnce hostBRT exampleEnv initialState) \<noteq> None"
      "lastSuccessAt (runOnce hostBRT exampleEnv initialState) = None"
      by (simp_all add: cs initialState_def)
  qed
  ultimately show ?thesis
    using a b c d by blast
qed

section \<open>The latest log instant\<close>

lemma latest_step:
  assumes "finite A" and "finite B"
  shows "latest (set_option (latest A) \<union> B) = latest (A \<union> B)"
proof (cases "A = {}")
  case True
  then show ?thesis by (simp add: latest_def)
next
  case False
  then have "Max (insert (Max A) B) = Max (A \<union> B)"
    using assms by (cases "B = {}") (simp_all add: Max_Un)
  with False show ?thesis by (simp add: latest_def)
qed

lemma finite_instants: "finite (set_option x \<union> set ts)"
  by simp

lemma latest_option [simp]: "latest (set_option x) = x"
  by (cases x) (simp_all add: latest_def)

lemma latest_insert:
  "latest (insert t (set_option x)) =
     (case x of None \<Rightarrow> Some t | Some t0 \<Rightarrow> if t > t0 then Some t else x)"
  by (cases x) (auto simp: latest_def max_def)

lemma insertItem_lastLog:
  "lastLogCreatedAt (snd (insertItem h e i j item (n, s)))
     = latest (set_option (lastLogCreatedAt s) \<union> set (insertedTimes h e i j [item]))"
proof -
  obtain r s1 where r: "insertLog h e i j item s = (r, s1)"
    by (cases "insertLog h e i j item s")
  then have a: "r = (case insertError h e i j item of None \<Rightarrow> Inr () | Some m \<Rightarrow> Inl m)"
    and b: "lastLogCreatedAt s1 = lastLogCreatedAt s"
    using insertLog_result [of h e i j item s] insertLog_fields(3) [of h e i j item s] by simp_all
  show ?thesis
    using r a b
    by (cases "insertError h e i j item")
      (auto simp: insertItem_def insertFailed_fields latest_insert
        split: option.splits jsdate.splits)
qed

lemma insertLoop_lastLog:
  "lastLogCreatedAt (snd (insertLoop h e i j items (n, s)))
     = latest (set_option (lastLogCreatedAt s) \<union> set (insertedTimes h e i j items))"
proof (induction items arbitrary: j n s)
  case Nil
  show ?case by simp
next
  case (Cons item rest)
  obtain n1 s1 where a: "insertItem h e i j item (n, s) = (n1, s1)"
    by (cases "insertItem h e i j item (n, s)")
  then have b: "lastLogCreatedAt s1
      = latest (set_option (lastLogCreatedAt s) \<union> set (insertedTimes h e i j [item]))"
    using insertItem_lastLog [of h e i j item n s] by simp
  have "lastLogCreatedAt (snd (insertLoop h e i j (item # rest) (n, s)))
      = latest (set_option (lastLogCreatedAt s1) \<union> set (insertedTimes h e i (j + 1) rest))"
    using a Cons.IH [of "j + 1" n1 s1] by simp
  also have "\<dots> = latest ((set_option (lastLogCreatedAt s) \<union> set (insertedTimes h e i j [item]))
      \<union> set (insertedTimes h e i (j + 1) rest))"
    unfolding b by (rule latest_step, rule finite_instants, rule finite_set)
  also have "\<dots> = latest (set_option (lastLogCreatedAt s)
      \<union> set (insertedTimes h e i j (item # rest)))"
    by (simp add: Un_assoc)
  finally show ?case .
qed

lemma campaignBody_lastLog:
  "lastLogCreatedAt (snd (campaignBody h e i (id' c) s))
     = latest (set_option (lastLogCreatedAt s) \<union> set (campaignTimes h e i c))"
proof -
  define s1 where "s1 = s\<lparr>calls := calls s @ [FetchLogs i (id' c)]\<rparr>"
  have a: "lastLogCreatedAt s1 = lastLogCreatedAt s"
    by (simp add: s1_def)
  have b: "lastLogCreatedAt (s2\<lparr>logsInserted := logsInserted s2 + n\<rparr>)
      = latest (set_option (lastLogCreatedAt s) \<union> set (insertedTimes h e i 0 ms))"
    if "insertLogs h e i ms s1 = (n, s2)" for ms n s2
    using insertLoop_lastLog [of h e i 0 ms 0 s1] that a by (simp add: insertLogs_def)
  show ?thesis
    using a b
    by (auto simp: campaignBody_def campaignTimes_def fetchLogsForCampaign_def
        s1_def [symmetric] split: sum.splits prod.splits)
qed

lemma campaignTurn_lastLog:
  "lastLogCreatedAt (snd (campaignTurn h e i c (had, s)))
     = latest (set_option (lastLogCreatedAt s) \<union> set (campaignTimes h e i c))"
proof -
  define s1 where "s1 = s\<lparr>currentCampaignId := (if truthyPrim (id' c) then id' c else Null)\<rparr>"
  obtain r s2 where r: "campaignBody h e i (id' c) s1 = (r, s2)"
    by (cases "campaignBody h e i (id' c) s1")
  then have a: "lastLogCreatedAt s2
      = latest (set_option (lastLogCreatedAt s) \<union> set (campaignTimes h e i c))"
    using campaignBody_lastLog [of h e i c s1] by (simp add: s1_def)
  have b: "lastLogCreatedAt (campaignFailed h e (id' c) m s2) = lastLogCreatedAt s2" for m
    by (simp add: campaignFailed_def nowIso_def)
  show ?thesis
    using a b r
    by (cases r) (simp_all add: campaignTurn_def Let_def s1_def [symmetric])
qed

lemma campaignLoop_lastLog:
  "lastLogCreatedAt (snd (campaignLoop h e i cs (had, s)))
     = latest (set_option (lastLogCreatedAt s) \<union> set (loopTimes h e i cs))"
proof (induction cs arbitrary: i had s)
  case Nil
  show ?case by simp
next
  case (Cons c cs)
  obtain had1 s1 where t: "campaignTurn h e i c (had, s) = (had1, s1)"
    by (cases "campaignTurn h e i c (had, s)")
  then have b: "lastLogCreatedAt s1
      = latest (set_option (lastLogCreatedAt s) \<union> set (campaignTimes h e i c))"
    using campaignTurn_lastLog [of h e i c had s] by simp
  have "lastLogCreatedAt (snd (campaignLoop h e i (c # cs) (had, s)))
      = latest (set_option (lastLogCreatedAt s1) \<union> set (loopTimes h e (i + 1) cs))"
    using t Cons.IH [of "i + 1" had1 s1] by simp
  also have "\<dots> = latest ((set_option (lastLogCreatedAt s) \<union> set (campaignTimes h e i c))
      \<union> set (loopTimes h e (i + 1) cs))"
    unfolding b by (rule latest_step, rule finite_instants, rule finite_set)
  also have "\<dots> = latest (set_option (lastLogCreatedAt s) \<union> set (loopTimes h e i (c # cs)))"
    by (simp add: Un_assoc)
  finally show ?case .
qed

lemma runOnce_lastLog:
  assumes "\<not> running s"
  shows "lastLogCreatedAt (runOnce h e s)
     = latest (set_option (lastLogCreatedAt s) \<union> set (runTimes h e s))"
proof (cases "topLevelError e s")
  case None
  with assms show ?thesis
    by (simp add: runOnce_ok Let_def campaignLoop_lastLog loopStart_fields runTimes_def)
next
  case (Some m)
  with assms show ?thesis
    using runOnce_top_error [of s e m h] by (simp add: runTimes_def)
qed

lemma latest_ge:
  assumes "finite T" and "t \<in> T"
  shows "\<exists>t'. latest T = Some t' \<and> t \<le> t'"
  using assms by (auto simp: latest_def)

lemma runOnce_lastLog_mono:
  assumes "\<not> running s" and "lastLogCreatedAt s = Some t"
  shows "\<exists>t'. lastLogCreatedAt (runOnce h e s) = Some t' \<and> t \<le> t'"
  unfolding runOnce_lastLog [OF assms(1)]
  by (rule latest_ge) (simp_all add: assms(2))

lemma insertItem_lastLog_changes:
  assumes "lastLogCreatedAt (snd (insertItem h e i j item (n, s))) \<noteq> lastLogCreatedAt s"
  shows "\<exists>t. insertError h e i j item = None \<and> createdAt item = Some (Date t)
    \<and> lastLogCreatedAt (snd (insertItem h e i j item (n, s))) = Some t
    \<and> (\<forall>t0. lastLogCreatedAt s = Some t0 \<longrightarrow> t0 < t)"
proof (cases "createdAt item")
  case None
  with assms show ?thesis
    by (simp add: insertItem_lastLog)
next
  case (Some d)
  show ?thesis
  proof (cases d)
    case InvalidDate
    with Some assms show ?thesis
      by (simp add: insertItem_lastLog)
  next
    case (Date t)
    show ?thesis
    proof (cases "insertError h e i j item")
      case None
      with Some Date assms show ?thesis
        by (cases "lastLogCreatedAt s")
          (auto simp: insertItem_lastLog latest_def max_def split: if_splits)
    next
      case (Some m)
      with \<open>createdAt item = Some d\<close> Date assms show ?thesis
        by (simp add: insertItem_lastLog)
    qed
  qed
qed

lemma runOnce_poolPromise:
  assumes "\<not> running s" and "topLevelError e s = None"
  shows "poolPromise (runOnce h e s) = Some (Inr ())"
proof -
  have "loopFrame (loopStart e s) (snd (campaignLoop h e 0 (campaignsOf e) (False, loopStart e s)))"
    by (rule campaignLoop_loopFrame)
  then have "poolPromise (runOnce h e s) = poolPromise (loopStart e s)"
    using assms by (simp add: runOnce_ok Let_def loopFrame_def)
  also have "\<dots> = Some (Inr ())"
    using assms(2)
    by (auto simp: loopStart_def fetchCampaigns_def getPool_def startRun_fields topLevelError_def
        split: option.splits sum.splits if_splits)
  finally show ?thesis .
qed

text \<open>
  C6 as amended.  \<open>lastLogCreatedAt\<close> is not reset when a run starts.  At the end of a run
  it is the latest of its value before the run and the \<open>created_at\<close> instants of the records
  inserted successfully, with a valid date, during the run.  It never regresses; and a turn
  of the insert loop changes it only to the \<open>created_at\<close> of the record it has just
  inserted, and only when that is later than the value held (or none is held).
\<close>

theorem lastLogCreatedAt_after_run:
  assumes "\<not> running s"
  shows "lastLogCreatedAt (startRun e s) = lastLogCreatedAt s
    \<and> lastLogCreatedAt (runOnce h e s)
        = latest (set_option (lastLogCreatedAt s) \<union> set (runTimes h e s))
    \<and> (\<forall>t. lastLogCreatedAt s = Some t \<longrightarrow>
          (\<exists>t'. lastLogCreatedAt (runOnce h e s) = Some t' \<and> t \<le> t'))
    \<and> (\<forall>i j item n st.
          lastLogCreatedAt (snd (insertItem h e i j item (n, st))) \<noteq> lastLogCreatedAt st \<longrightarrow>
          (\<exists>t. insertError h e i j item = None \<and> createdAt item = Some (Date t)
             \<and> lastLogCreatedAt (snd (insertItem h e i j item (n, st))) = Some t
             \<and> (\<forall>t0. lastLogCreatedAt st = Some t0 \<longrightarrow> t0 < t)))"
  using runOnce_lastLog [OF assms, of h e] runOnce_lastLog_mono [OF assms, of _ h e]
    insertItem_lastLog_changes [of h e] startRun_fields(3) [of e s]
  by blast

lemma runTimes_later:
  "runTimes hostBRT (exampleEnv\<lparr>api_logs := \<lambda>i c. Inr laterLogs\<rparr>) initialState
     = [1704178800000, 1704178800000, 1704178800000]"
  by code_simp

lemma loopTimes_example:
  "loopTimes hostBRT exampleEnv 0 (campaignsOf exampleEnv) = [1704092400000, 1704092400000]"
  by code_simp

lemma topLevelError_later:
  "topLevelError (exampleEnv\<lparr>api_logs := \<lambda>i c. Inr laterLogs\<rparr>) initialState = None"
  by code_simp

lemma second_run:
  "\<not> running (runOnce hostBRT (exampleEnv\<lparr>api_logs := \<lambda>i c. Inr laterLogs\<rparr>) initialState)"
  "runTimes hostBRT exampleEnv
     (runOnce hostBRT (exampleEnv\<lparr>api_logs := \<lambda>i c. Inr laterLogs\<rparr>) initialState)
     = [1704092400000, 1704092400000]"
  "lastLogCreatedAt (runOnce hostBRT (exampleEnv\<lparr>api_logs := \<lambda>i c. Inr laterLogs\<rparr>) initialState)
     = Some 1704178800000"
proof -
  let ?s1 = "runOnce hostBRT (exampleEnv\<lparr>api_logs := \<lambda>i c. Inr laterLogs\<rparr>) initialState"
  have a: "\<not> running initialState" "lastLogCreatedAt initialState = None"
    by (simp_all add: initialState_def)
  show "\<not> running ?s1"
    using runOnce_finished [OF a(1)] by simp
  have "poolPromise ?s1 = Some (Inr ())"
    using a(1) topLevelError_later by (rule runOnce_poolPromise)
  moreover have "truthyPrim (token exampleEnv)" "\<exists>cs. query_campanhas exampleEnv = Inr cs"
    by (simp_all add: exampleEnv_def js_def)
  ultimately have "topLevelError exampleEnv ?s1 = None"
    by (auto simp: topLevelError_def)
  then show "runTimes hostBRT exampleEnv ?s1 = [1704092400000, 1704092400000]"
    by (simp add: runTimes_def loopTimes_example)
  show "lastLogCreatedAt ?s1 = Some 1704178800000"
    by (simp add: runOnce_lastLog [OF a(1)] a(2) runTimes_later latest_def)
qed

lemma first_insert:
  "insertError hostBRT exampleEnv 0 0
     \<lparr> status = Prim (Str (js ''sent'')), destino = Prim Null, log_id = Prim Null,
       departamento = Prim Null, template_name = Prim Null, contact_name = Prim Null,
       createdAt = Some (Date 1704092400000) \<rparr> = None"
  by code_simp

theorem lastLogCreatedAt_after_run_witness:
  "\<not> running (runOnce hostBRT (exampleEnv\<lparr>api_logs := \<lambda>i c. Inr laterLogs\<rparr>) initialState)
   \<and> lastLogCreatedAt (runOnce hostBRT (exampleEnv\<lparr>api_logs := \<lambda>i c. Inr laterLogs\<rparr>) initialState)
       = Some 1704178800000
   \<and> lastLogCreatedAt
        (runOnce hostBRT exampleEnv
          (runOnce hostBRT (exampleEnv\<lparr>api_logs := \<lambda>i c. Inr laterLogs\<rparr>) initialState))
       = latest ({1704178800000} \<union> {1704092400000})
   \<and> (\<exists>t'. lastLogCreatedAt
          (runOnce hostBRT exampleEnv
            (runOnce hostBRT (exampleEnv\<lparr>api_logs := \<lambda>i c. Inr laterLogs\<rparr>) initialState))
          = Some t' \<and> 1704178800000 \<le> t')
   \<and> lastLogCreatedAt
        (snd (insertItem hostBRT exampleEnv 0 0
          \<lparr> status = Prim (Str (js ''sent'')), destino = Prim Null, log_id = Prim Null,
            departamento = Prim Null, template_name = Prim Null, contact_name = Prim Null,
            createdAt = Some (Date 1704092400000) \<rparr> (0, initialState)))
       \<noteq> lastLogCreatedAt initialState
   \<and> (\<exists>t. lastLogCreatedAt
          (snd (insertItem hostBRT exampleEnv 0 0
            \<lparr> status = Prim (Str (js ''sent'')), destino = Prim Null, log_id = Prim Null,
              departamento = Prim Null, template_name = Prim Null, contact_name = Prim Null,
              createdAt = Some (Date 1704092400000) \<rparr> (0, initialState)))
          = Some t)"
proof -
  let ?item = "\<lparr> status = Prim (Str (js ''sent'')), destino = Prim Null, log_id = Prim Null,
       departamento = Prim Null, template_name = Prim Null, contact_name = Prim Null,
       createdAt = Some (Date 1704092400000) \<rparr>"
  note t = lastLogCreatedAt_after_run [OF second_run(1), of exampleEnv hostBRT]
  have a: "lastLogCreatedAt
        (runOnce hostBRT exampleEnv
          (runOnce hostBRT (exampleEnv\<lparr>api_logs := \<lambda>i c. Inr laterLogs\<rparr>) initialState))
       = latest ({1704178800000} \<union> {1704092400000})"
    using t second_run by simp
  have b: "\<exists>t'. lastLogCreatedAt
          (runOnce hostBRT exampleEnv
            (runOnce hostBRT (exampleEnv\<lparr>api_logs := \<lambda>i c. Inr laterLogs\<rparr>) initialState))
          = Some t' \<and> 1704178800000 \<le> t'"
    using t second_run(3) by blast
  have c: "lastLogCreatedAt (snd (insertItem hostBRT exampleEnv 0 0 ?item (0, initialState)))
       \<noteq> lastLogCreatedAt initialState"
    by (simp add: insertItem_lastLog first_insert latest_def initialState_def)
  from t have "\<forall>i j item n st.
          lastLogCreatedAt (snd (insertItem hostBRT exampleEnv i j item (n, st)))
            \<noteq> lastLogCreatedAt st \<longrightarrow>
          (\<exists>t. insertError hostBRT exampleEnv i j item = None \<and> createdAt item = Some (Date t)
             \<and> lastLogCreatedAt (snd (insertItem hostBRT exampleEnv i j item (n, st))) = Some t
             \<and> (\<forall>t0. lastLogCreatedAt st = Some t0 \<longrightarrow> t0 < t))"
    by (elim conjE)
  from this [rule_format, OF c]
  have d: "\<exists>t. lastLogCreatedAt
          (snd (insertItem hostBRT exampleEnv 0 0 ?item (0, initialState))) = Some t"
    by blast
  from second_run(1,3) a b c d show ?thesis
    by (intro conjI)
qed

text \<open>
  C6 as stated fails for the second of two runs.  The first run inserts logs created
  at 2024-01-02T07:00:00 (1704178800000).  The second inserts four logs; the two of them
  that carry a creation time were created at 2024-01-01T07:00:00 (1704092400000).  It ends
  with \<open>lastLogCreatedAt\<close> still at the instant of the first run, which is not the maximum
  among the records it inserted.
\<close>

theorem lastLogCreatedAt_carried_over:
  "runTimes hostBRT exampleEnv
     (runOnce hostBRT (exampleEnv\<lparr>api_logs := \<lambda>i c. Inr laterLogs\<rparr>) initialState)
     = [1704092400000, 1704092400000]
   \<and> lastLogCreatedAt
        (runOnce hostBRT exampleEnv
          (runOnce hostBRT (exampleEnv\<lparr>api_logs := \<lambda>i c. Inr laterLogs\<rparr>) initialState))
       = Some 1704178800000
   \<and> Some (1704178800000 :: int) \<noteq> latest (set [1704092400000, 1704092400000])"
  using second_run runOnce_lastLog [OF second_run(1), of hostBRT exampleEnv]
  by (simp add: latest_def)

section \<open>The timestamp conversion\<close>

lemma time_fields:
  "MakeDate (Day t) (MakeTime (HourFromTime t) (MinFromTime t) (SecFromTime t) (msFromTime t)) = t"
proof -
  define x y z w where "x = t div 1000" and "y = x div 60" and "z = y div 60" and "w = z div 24"
  have a: "t div 60000 = y" "t div 3600000 = z" "t div 86400000 = w"
    by (simp_all add: x_def y_def z_def w_def div_mult2_eq [symmetric])
  have b: "t = 1000 * x + t mod 1000" "x = 60 * y + x mod 60" "y = 60 * z + y mod 60"
    "z = 24 * w + z mod 24"
    by (simp_all add: x_def y_def z_def w_def)
  have "w * 86400000 + (z mod 24 * 3600000 + y mod 60 * 60000 + x mod 60 * 1000 + t mod 1000) = t"
    using b by linarith
  then show ?thesis
    by (simp add: MakeDate_def MakeTime_def Day_def HourFromTime_def MinFromTime_def
      SecFromTime_def msFromTime_def msPerDay_def msPerHour_def msPerMinute_def msPerSecond_def
      a x_def [symmetric])
qed

lemma setHours_shift:
  "MakeDate (Day t) (MakeTime (HourFromTime t - 3) (MinFromTime t) (SecFromTime t) (msFromTime t))
     = t - 3 * msPerHour"
proof -
  have "MakeDate (Day t) (MakeTime (HourFromTime t - 3) (MinFromTime t) (SecFromTime t) (msFromTime t))
     = MakeDate (Day t) (MakeTime (HourFromTime t) (MinFromTime t) (SecFromTime t) (msFromTime t))
       - 3 * msPerHour"
    by (simp add: MakeDate_def MakeTime_def algebra_simps)
  then show ?thesis
    by (simp only: time_fields)
qed

lemma setHours_constant_offset:
  assumes "\<forall>x u. LocalTZA h x u = c"
  shows "setHours h t (getHours h t - 3) = TimeClip (t - 3 * msPerHour)"
  using assms
  by (simp add: setHours_def getHours_def Let_def LocalTime_def UTC_def setHours_shift)

lemma toSqlDateTime_falsy:
  "toSqlDateTime h (Prim Undefined) = Inr None" "toSqlDateTime h (Prim Null) = Inr None"
  "toSqlDateTime h (Prim (Str [])) = Inr None"
  by (simp_all add: toSqlDateTime_def)

lemma toSqlDateTime_unparseable:
  assumes "Date_parse h s = None"
  shows "toSqlDateTime h (Prim (Str s)) = Inr None"
  using assms by (simp add: toSqlDateTime_def parseDate_def)

lemma toSqlDateTime_valid:
  assumes "\<forall>x u. LocalTZA h x u = c" and "s \<noteq> []" and "Date_parse h s = Some t"
    and "\<bar>t\<bar> \<le> 8640000000000000"
  shows "toSqlDateTime h (Prim (Str s)) = Inr (Some (TimeClip (t - 3 * msPerHour)))"
  using assms(2-4)
  by (simp add: toSqlDateTime_def parseDate_def TimeClip_def setHours_constant_offset [OF assms(1)])

lemma example_instants:
  "utcTime 2024 1 1 10 0 0 = 1704103200000" "utcTime 2024 1 1 7 0 0 = 1704092400000"
  "utcTime 2024 3 10 8 30 0 = 1710059400000" "utcTime 2024 3 10 7 0 0 = 1710054000000"
  "utcTime 2024 3 10 3 0 0 = 1710039600000" "utcTime 2024 3 10 6 30 0 = 1710052200000"
  "utcTime 2024 3 10 5 30 0 = 1710048600000"
  by (simp_all add: utcTime_def MakeDay_def DayFromYear_def InLeapYear_def MakeDate_def
      MakeTime_def msPerDay_def msPerHour_def msPerMinute_def msPerSecond_def)

lemma toSqlDateTime_in_range:
  assumes "\<forall>x u. LocalTZA h x u = c" and "s \<noteq> []" and "Date_parse h s = Some t"
    and "\<bar>t\<bar> \<le> 8640000000000000" and "- 8640000000000000 \<le> t - 3 * msPerHour"
  shows "toSqlDateTime h (Prim (Str s)) = Inr (Some (Date (t - 3 * 3600000)))"
proof -
  have "\<bar>t - 3 * msPerHour\<bar> \<le> 8640000000000000"
    using assms(4,5) by (simp add: msPerHour_def)
  then have "TimeClip (t - 3 * msPerHour) = Date (t - 3 * 3600000)"
    by (simp add: TimeClip_def msPerHour_def)
  then show ?thesis
    using toSqlDateTime_valid [OF assms(1-4)] by simp
qed

lemma toSqlDateTime_example:
  assumes "\<forall>x u. LocalTZA h x u = c"
    and "Date_parse h (js ''2024-01-01T10:00:00Z'') = Some (utcTime 2024 1 1 10 0 0)"
  shows "toSqlDateTime h (Prim (Str (js ''2024-01-01T10:00:00Z'')))
            = Inr (Some (Date (utcTime 2024 1 1 7 0 0)))"
proof -
  have n: "js ''2024-01-01T10:00:00Z'' \<noteq> []"
    by (simp add: js_def)
  have p: "Date_parse h (js ''2024-01-01T10:00:00Z'') = Some 1704103200000"
    using assms(2) by (simp only: example_instants)
  have "toSqlDateTime h (Prim (Str (js ''2024-01-01T10:00:00Z'')))
      = Inr (Some (Date (1704103200000 - 3 * 3600000)))"
    by (rule toSqlDateTime_in_range [OF assms(1) n p]) (simp_all add: msPerHour_def)
  then show ?thesis
    by (simp add: example_instants)
qed

text \<open>
  C7 as amended.  \<open>toSqlDateTime\<close> maps \<open>undefined\<close> (a missing field), \<open>null\<close>, the
  empty string and every string the parser rejects to \<open>null\<close>.  On a host whose local time
  zone adjustment is one constant, it maps a string parsed to the instant \<open>t\<close> to the date
  clipped from \<open>t\<close> minus three hours, which is the instant exactly three hours earlier
  whenever that lies in the range of dates; so 2024-01-01T10:00:00Z becomes
  2024-01-01T07:00:00Z.
\<close>

theorem toSqlDateTime_fixed_offset:
  assumes "\<forall>x u. LocalTZA h x u = c"
  shows "toSqlDateTime h (Prim Undefined) = Inr None
    \<and> toSqlDateTime h (Prim Null) = Inr None
    \<and> toSqlDateTime h (Prim (Str [])) = Inr None
    \<and> (\<forall>s. Date_parse h s = None \<longrightarrow> toSqlDateTime h (Prim (Str s)) = Inr None)
    \<and> (\<forall>s t. s \<noteq> [] \<and> Date_parse h s = Some t \<and> \<bar>t\<bar> \<le> 8640000000000000 \<longrightarrow>
          toSqlDateTime h (Prim (Str s)) = Inr (Some (TimeClip (t - 3 * msPerHour))))
    \<and> (\<forall>s t. s \<noteq> [] \<and> Date_parse h s = Some t \<and> \<bar>t\<bar> \<le> 8640000000000000
            \<and> - 8640000000000000 \<le> t - 3 * msPerHour \<longrightarrow>
          toSqlDateTime h (Prim (Str s)) = Inr (Some (Date (t - 3 * 3600000))))
    \<and> (Date_parse h (js ''2024-01-01T10:00:00Z'') = Some (utcTime 2024 1 1 10 0 0) \<longrightarrow>
          toSqlDateTime h (Prim (Str (js ''2024-01-01T10:00:00Z'')))
            = Inr (Some (Date (utcTime 2024 1 1 7 0 0))))"
proof (intro conjI allI impI)
  show "toSqlDateTime h (Prim Undefined) = Inr None" "toSqlDateTime h (Prim Null) = Inr None"
    "toSqlDateTime h (Prim (Str [])) = Inr None"
    by (rule toSqlDateTime_falsy)+
next
  fix s assume "Date_parse h s = None"
  then show "toSqlDateTime h (Prim (Str s)) = Inr None"
    by (rule toSqlDateTime_unparseable)
next
  fix s t assume "s \<noteq> [] \<and> Date_parse h s = Some t \<and> \<bar>t\<bar> \<le> 8640000000000000"
  then show "toSqlDateTime h (Prim (Str s)) = Inr (Some (TimeClip (t - 3 * msPerHour)))"
    using toSqlDateTime_valid [OF assms, of s t] by blast
next
  fix s t assume "s \<noteq> [] \<and> Date_parse h s = Some t \<and> \<bar>t\<bar> \<le> 8640000000000000
            \<and> - 8640000000000000 \<le> t - 3 * msPerHour"
  then show "toSqlDateTime h (Prim (Str s)) = Inr (Some (Date (t - 3 * 3600000)))"
    using toSqlDateTime_in_range [OF assms, of s t] by blast
next
  assume "Date_parse h (js ''2024-01-01T10:00:00Z'') = Some (utcTime 2024 1 1 10 0 0)"
  with assms show "toSqlDateTime h (Prim (Str (js ''2024-01-01T10:00:00Z'')))
            = Inr (Some (Date (utcTime 2024 1 1 7 0 0)))"
    by (rule toSqlDateTime_example)
qed

theorem toSqlDateTime_fixed_offset_witness:
  "(\<forall>x u. LocalTZA hostBRT x u = - 10800000)
   \<and> Date_parse hostBRT (js ''2024-01-01T10:00:00Z'') = Some (utcTime 2024 1 1 10 0 0)
   \<and> Date_parse hostBRT (js ''yesterday'') = None
   \<and> toSqlDateTime hostBRT (Prim (Str (js ''yesterday''))) = Inr None
   \<and> toSqlDateTime hostBRT (Prim Null) = Inr None
   \<and> toSqlDateTime hostBRT (Prim (Str (js ''2024-01-01T10:00:00Z'')))
       = Inr (Some (Date (utcTime 2024 1 1 7 0 0)))
   \<and> js ''2024-01-02T10:00:00Z'' \<noteq> []
   \<and> Date_parse hostBRT (js ''2024-01-02T10:00:00Z'') = Some 1704189600000
   \<and> toSqlDateTime hostBRT (Prim (Str (js ''2024-01-02T10:00:00Z'')))
       = Inr (Some (TimeClip (1704189600000 - 3 * msPerHour)))
   \<and> toSqlDateTime hostBRT (Prim (Str (js ''2024-01-02T10:00:00Z'')))
       = Inr (Some (Date (1704189600000 - 3 * 3600000)))"
proof -
  have a: "\<forall>x u. LocalTZA hostBRT x u = - 10800000"
    by (simp add: hostBRT_def)
  have n: "js ''2024-01-02T10:00:00Z'' \<noteq> []"
    by (simp add: js_def)
  have p: "Date_parse hostBRT (js ''2024-01-02T10:00:00Z'') = Some 1704189600000"
    by (simp add: hostBRT_def js_def)
  have r: "\<bar>1704189600000 :: int\<bar> \<le> 8640000000000000"
    "- 8640000000000000 \<le> (1704189600000 :: int) - 3 * msPerHour"
    by (simp_all add: msPerHour_def)
  have b: "Date_parse hostBRT (js ''2024-01-01T10:00:00Z'') = Some (utcTime 2024 1 1 10 0 0)"
    by (simp add: hostBRT_def example_instants)
  have c: "Date_parse hostBRT (js ''yesterday'') = None"
    by (simp add: hostBRT_def js_def)
  note t = toSqlDateTime_fixed_offset [OF a]
  from t have "toSqlDateTime hostBRT (Prim Null) = Inr None"
    by (rule conjunct2 [THEN conjunct1])
  moreover from t have "\<forall>s. Date_parse hostBRT s = None \<longrightarrow>
      toSqlDateTime hostBRT (Prim (Str s)) = Inr None"
    by (elim conjE)
  from this [rule_format, OF c]
  have "toSqlDateTime hostBRT (Prim (Str (js ''yesterday''))) = Inr None" .
  moreover from t have "Date_parse hostBRT (js ''2024-01-01T10:00:00Z'')
        = Some (utcTime 2024 1 1 10 0 0) \<longrightarrow>
      toSqlDateTime hostBRT (Prim (Str (js ''2024-01-01T10:00:00Z'')))
        = Inr (Some (Date (utcTime 2024 1 1 7 0 0)))"
    by (elim conjE)
  then have "toSqlDateTime hostBRT (Prim (Str (js ''2024-01-01T10:00:00Z'')))
        = Inr (Some (Date (utcTime 2024 1 1 7 0 0)))"
    using b by (rule mp)
  moreover from t have "\<forall>s t. s \<noteq> [] \<and> Date_parse hostBRT s = Some t
        \<and> \<bar>t\<bar> \<le> 8640000000000000 \<longrightarrow>
      toSqlDateTime hostBRT (Prim (Str s)) = Inr (Some (TimeClip (t - 3 * msPerHour)))"
    by (elim conjE)
  then have "toSqlDateTime hostBRT (Prim (Str (js ''2024-01-02T10:00:00Z'')))
       = Inr (Some (TimeClip (1704189600000 - 3 * msPerHour)))"
    using n p r(1) by blast
  moreover from t have "\<forall>s t. s \<noteq> [] \<and> Date_parse hostBRT s = Some t
        \<and> \<bar>t\<bar> \<le> 8640000000000000 \<and> - 8640000000000000 \<le> t - 3 * msPerHour \<longrightarrow>
      toSqlDateTime hostBRT (Prim (Str s)) = Inr (Some (Date (t - 3 * 3600000)))"
    by (elim conjE)
  then have "toSqlDateTime hostBRT (Prim (Str (js ''2024-01-02T10:00:00Z'')))
       = Inr (Some (Date (1704189600000 - 3 * 3600000)))"
    using n p r by blast
  ultimately show ?thesis
    using a b c n p by (intro conjI)
qed

lemma hostNY_parse:
  "Date_parse hostNY (js ''2024-03-10T08:30:00Z'') = Some 1710059400000"
  by (simp add: hostNY_def example_instants)

lemma hostNY_offsets:
  "LocalTZA hostNY 1710059400000 True = - 14400000"
  "LocalTZA hostNY 1710034200000 False = - 18000000"
  by (simp_all add: hostNY_def example_instants)

lemma hostNY_hours:
  "getHours hostNY 1710059400000 = 4"
  by (simp add: getHours_def LocalTime_def hostNY_offsets HourFromTime_def msPerHour_def)

lemma hostNY_setHours:
  "setHours hostNY 1710059400000 1 = Date 1710052200000"
  by (simp add: setHours_def LocalTime_def UTC_def hostNY_offsets Let_def MakeDate_def
      MakeTime_def Day_def MinFromTime_def SecFromTime_def msFromTime_def msPerDay_def
      msPerHour_def msPerMinute_def msPerSecond_def TimeClip_def)

text \<open>
  C7 as stated fails on a host with daylight saving time.  In New York, 08:30 UTC on
  2024-03-10 is 04:30 local time; setting the local hour to 1 gives 01:30 local time, before
  the change of offset, which is 06:30 UTC: two hours earlier, not three.
\<close>

theorem toSqlDateTime_daylight_saving:
  "Date_parse hostNY (js ''2024-03-10T08:30:00Z'') = Some (utcTime 2024 3 10 8 30 0)
   \<and> toSqlDateTime hostNY (Prim (Str (js ''2024-03-10T08:30:00Z'')))
       = Inr (Some (Date (utcTime 2024 3 10 6 30 0)))
   \<and> utcTime 2024 3 10 6 30 0 \<noteq> utcTime 2024 3 10 8 30 0 - 3 * msPerHour
   \<and> utcTime 2024 3 10 8 30 0 - 3 * msPerHour = utcTime 2024 3 10 5 30 0"
proof -
  have n: "js ''2024-03-10T08:30:00Z'' \<noteq> []"
    by (simp add: js_def)
  have "toSqlDateTime hostNY (Prim (Str (js ''2024-03-10T08:30:00Z'')))
      = Inr (Some (Date 1710052200000))"
    using n
    by (simp add: toSqlDateTime_def parseDate_def hostNY_parse TimeClip_def hostNY_hours
        hostNY_setHours)
  then show ?thesis
    by (simp add: hostNY_parse example_instants msPerHour_def)
qed

section \<open>The progress bar\<close>

lemma bits_nonneg: "0 \<le> bits n"
  by (induction n rule: bits.induct) (simp add: bits.simps)

lemma bits_bounds:
  assumes "0 < n"
  shows "2 powi (bits n - 1) \<le> (of_int n :: rat) \<and> (of_int n :: rat) < 2 powi (bits n)"
  using assms
proof (induction n rule: bits.induct)
  case (1 n)
  show ?case
  proof (cases "n = 1")
    case True
    then show ?thesis
      by (simp add: bits.simps)
  next
    case False
    with "1.prems" have h: "0 < n div 2" by simp
    let ?b = "bits (n div 2)"
    have ih: "2 powi (?b - 1) \<le> (of_int (n div 2) :: rat)" "(of_int (n div 2) :: rat) < 2 powi ?b"
      using "1.IH" h "1.prems" by simp_all
    have b: "bits n = 1 + ?b"
      using "1.prems" by (subst bits.simps) simp
    have pos: "0 \<le> ?b" by (rule bits_nonneg)
    have lo: "(2::rat) powi ?b = 2 * 2 powi (?b - 1)"
      by (simp add: power_int_diff)
    have hi: "(2::rat) powi (1 + ?b) = 2 * 2 powi ?b"
      by (simp add: power_int_add)
    have "(2::rat) powi ?b = 2 ^ nat ?b"
      using pos by (simp add: power_int_nonneg_exp)
    then have "(of_int (n div 2) :: rat) < of_int (2 ^ nat ?b)"
      using ih(2) by simp
    then have "n div 2 < 2 ^ nat ?b"
      by (simp only: of_int_less_iff)
    then have "n < 2 * 2 ^ nat ?b"
      by linarith
    then have "(of_int n :: rat) < of_int (2 * 2 ^ nat ?b)"
      by (simp only: of_int_less_iff)
    then have u: "(of_int n :: rat) < 2 powi (1 + ?b)"
      using pos by (simp add: hi power_int_nonneg_exp)
    have "2 * (n div 2) \<le> n"
      by linarith
    then have "(of_int (2 * (n div 2)) :: rat) \<le> of_int n"
      by (simp only: of_int_le_iff)
    then have l: "2 powi ?b \<le> (of_int n :: rat)"
      using ih(1) by (simp add: lo)
    from l u show ?thesis
      by (simp add: b)
  qed
qed

lemma binade_le:
  assumes "0 < q"
  shows "2 powi (binade q) \<le> q"
proof -
  obtain a b where ab: "quotient_of q = (a, b)"
    by (cases "quotient_of q")
  then have b: "0 < b" and q: "q = of_int a / of_int b"
    by (simp_all add: quotient_of_denom_pos quotient_of_div)
  with assms have a: "0 < a"
    by (simp add: zero_less_divide_iff)
  let ?k = "bits a - bits b"
  show ?thesis
  proof (cases "2 powi ?k \<le> q")
    case True
    then show ?thesis
      using ab by (simp add: binade_def)
  next
    case False
    have "2 powi (bits a - 1) \<le> (of_int a :: rat)" "(of_int b :: rat) < 2 powi (bits b)"
      using bits_bounds [OF a] bits_bounds [OF b] by simp_all
    moreover have "(0::rat) < of_int b" "(0::rat) < 2 powi (bits b)" "(0::rat) < 2 powi (bits a - 1)"
      using b by simp_all
    ultimately have "2 powi (bits a - 1) / 2 powi (bits b) \<le> (of_int a / of_int b :: rat)"
      using a by (intro frac_le) simp_all
    moreover have "(2::rat) powi (?k - 1) = 2 powi (bits a - 1) / 2 powi (bits b)"
      by (simp add: power_int_diff)
    ultimately have "2 powi (?k - 1) \<le> q"
      by (simp only: q)
    then show ?thesis
      using ab False by (simp add: binade_def)
  qed
qed

lemma roundHalfEven_error: "\<bar>of_int (roundHalfEven x) - x\<bar> \<le> 1 / 2"
proof -
  have "of_int \<lfloor>x\<rfloor> \<le> x" "x < of_int \<lfloor>x\<rfloor> + 1"
    by linarith+
  then show ?thesis
    by (auto simp: roundHalfEven_def Let_def)
qed

lemma fl_error:
  assumes "0 < q"
  shows "\<bar>fl q - q\<bar> \<le> q / 2 ^ 53"
proof -
  define u :: rat where "u = 2 powi (binade q - 52)"
  have u: "0 < u"
    by (simp add: u_def)
  have "u = 2 powi (binade q) / 2 ^ 52"
    by (simp add: u_def power_int_diff)
  then have ule: "u \<le> q / 2 ^ 52"
    using binade_le [OF assms] by (simp add: divide_right_mono)
  have f: "fl q = of_int (roundHalfEven (q / u)) * u"
    using assms by (simp add: fl_def u_def Let_def)
  have "fl q - q = (of_int (roundHalfEven (q / u)) - q / u) * u"
    using u by (simp add: f algebra_simps)
  then have "\<bar>fl q - q\<bar> = \<bar>of_int (roundHalfEven (q / u)) - q / u\<bar> * u"
    using u by (simp add: abs_mult)
  also have "\<dots> \<le> (1 / 2) * u"
    using u roundHalfEven_error [of "q / u"] by (intro mult_right_mono) simp_all
  also have "\<dots> \<le> (1 / 2) * (q / 2 ^ 52)"
    using ule by simp
  also have "\<dots> = q / 2 ^ 53"
    by simp
  finally show ?thesis .
qed

lemma fl_0 [simp]: "fl 0 = 0"
  by (simp add: fl_def)

lemma filled_near:
  assumes "0 < p" and "p \<le> 100"
  shows "\<bar>fl (fl (of_nat p / 100) * 20) - of_nat p / 5\<bar> < 1 / 10"
proof -
  define q :: rat where "q = of_nat p / 100"
  define x where "x = fl q"
  define y where "y = fl (x * 20)"
  have q: "0 < q" "q \<le> 1"
    using assms by (simp_all add: q_def)
  have ex: "\<bar>x - q\<bar> \<le> q / 2 ^ 53"
    unfolding x_def by (rule fl_error [OF q(1)])
  have "q / 2 ^ 53 < q"
    using q(1) by simp
  with ex have x: "0 < x" "x \<le> 2"
    using q by linarith+
  then have ey: "\<bar>y - x * 20\<bar> \<le> x * 20 / 2 ^ 53"
    unfolding y_def by (intro fl_error) simp
  have "x * 20 / 2 ^ 53 \<le> 40 / 2 ^ 53"
    using x by simp
  moreover have "q / 2 ^ 53 \<le> 1 / 2 ^ 53"
    using q by (simp add: divide_right_mono)
  ultimately have "\<bar>y - q * 20\<bar> \<le> 40 / 2 ^ 53 + 20 * (1 / 2 ^ 53)"
    using ex ey by linarith
  also have "\<dots> < 1 / 10"
    by simp
  finally show ?thesis
    by (simp add: y_def x_def q_def)
qed

lemma filled_exact:
  assumes "p \<le> 100"
  shows "Math_round (fl (fl (of_nat p / 100) * 20)) = (2 * int p + 5) div 10"
proof (cases "p = 0")
  case True
  then show ?thesis
    by (simp add: Math_round_0)
next
  case False
  define y where "y = fl (fl (of_nat p / 100) * 20)"
  define k where "k = (2 * int p + 5) div 10"
  define r where "r = (2 * int p + 5) mod 10"
  have n: "2 * int p + 5 = 10 * k + r"
    by (simp add: k_def r_def)
  have r: "1 \<le> r" "r \<le> 9"
    unfolding r_def by presburger+
  have "(of_int (2 * int p + 5) :: rat) = of_int (10 * k + r)"
    by (simp only: n)
  then have e: "(of_nat p :: rat) / 5 + 1 / 2 = of_int k + of_int r / 10"
    by simp
  have "(1::rat) \<le> of_int r" "(of_int r :: rat) \<le> 9"
    using r by simp_all
  then have b: "of_int k + 1 / 10 \<le> (of_nat p :: rat) / 5 + 1 / 2"
    "(of_nat p :: rat) / 5 + 1 / 2 \<le> of_int k + 9 / 10"
    unfolding e by simp_all
  have "\<bar>y - of_nat p / 5\<bar> < 1 / 10"
    unfolding y_def using False assms by (intro filled_near) simp_all
  with b have "of_int k \<le> y + 1 / 2" "y + 1 / 2 < of_int k + 1"
    by linarith+
  then have "\<lfloor>y + 1 / 2\<rfloor> = k"
    by (simp add: floor_eq_iff)
  then show ?thesis
    by (simp add: Math_round_def y_def k_def)
qed

lemma repeat_replicate: "repeat [c] n = replicate n c"
  by (induction n) (simp_all add: repeat_def)

lemma buildProgressBar_20:
  assumes "percent \<le> 100"
  shows "buildProgressBar percent None =
     js ''['' @ replicate ((2 * percent + 5) div 10) (of_char CHR ''#'')
       @ replicate (20 - (2 * percent + 5) div 10) (of_char CHR ''-'') @ js '']''"
proof -
  have f: "Math_round (fl (fl (of_nat percent / 100) * 20)) = int ((2 * percent + 5) div 10)"
    using filled_exact [OF assms] by (simp add: zdiv_int)
  have "(2 * percent + 5) div 10 \<le> 20"
    using assms by simp
  then have "nat (max (20 - int ((2 * percent + 5) div 10)) 0) = 20 - (2 * percent + 5) div 10"
    by simp
  then show ?thesis
    using f by (simp add: buildProgressBar_def Let_def js_def repeat_replicate)
qed

lemma roundedCells_eq: "roundedCells percent = (2 * percent + 5) div 10"
proof -
  have "(of_nat percent / 100 * 20 :: rat) + 1 / 2 = of_int (2 * int percent + 5) / of_int 10"
    by simp
  then have "\<lfloor>(of_nat percent / 100 * 20 :: rat) + 1 / 2\<rfloor> = (2 * int percent + 5) div 10"
    by (simp only: floor_divide_of_int_eq)
  then show ?thesis
    by (simp add: roundedCells_def zdiv_int [symmetric] nat_div_distrib)
qed

lemma replicate_10: "replicate 10 c = [c, c, c, c, c, c, c, c, c, c]"
  by (simp add: numeral_eq_Suc)

lemma replicate_20:
  "replicate 20 c = [c, c, c, c, c, c, c, c, c, c, c, c, c, c, c, c, c, c, c, c]"
  by (simp add: numeral_eq_Suc)

lemma bar_50: "buildProgressBar 50 None = js ''[##########----------]''"
proof -
  have "(2 * 50 + 5) div 10 = (10::nat)" "20 - (10::nat) = 10"
    by simp_all
  then have "buildProgressBar 50 None =
     js ''['' @ replicate 10 (of_char CHR ''#'') @ replicate 10 (of_char CHR ''-'') @ js '']''"
    using buildProgressBar_20 [of 50] by simp
  then show ?thesis
    by (simp only: replicate_10) (simp add: js_def)
qed

lemma bar_100: "buildProgressBar 100 None = js ''[####################]''"
proof -
  have "(2 * 100 + 5) div 10 = (20::nat)" "20 - (20::nat) = 0"
    by simp_all
  then have "buildProgressBar 100 None =
     js ''['' @ replicate 20 (of_char CHR ''#'') @ replicate 0 (of_char CHR ''-'') @ js '']''"
    using buildProgressBar_20 [of 100] by simp
  then show ?thesis
    by (simp only: replicate_20) (simp add: js_def)
qed

text \<open>
  C9.  For every percentage from 0 to 100, \<open>buildProgressBar\<close> with no width renders 22
  characters: an opening bracket, as many "#" as percent / 100 x 20 rounded to the nearest
  integer (the double arithmetic of the source gives exactly that number), "-" for the
  rest of the 20 cells, and a closing bracket.  0 gives 20 empty cells, 50 gives 10 filled
  and 10 empty, 100 gives 20 filled.
\<close>

theorem progress_bar_rendering:
  assumes "percent \<le> 100"
  shows "buildProgressBar percent None =
           js ''['' @ replicate (roundedCells percent) (of_char CHR ''#'')
             @ replicate (20 - roundedCells percent) (of_char CHR ''-'') @ js '']''
    \<and> roundedCells percent \<le> 20
    \<and> length (buildProgressBar percent None) = 22
    \<and> buildProgressBar 0 None = js ''[--------------------]''
    \<and> buildProgressBar 50 None = js ''[##########----------]''
    \<and> buildProgressBar 100 None = js ''[####################]''"
proof -
  have a: "buildProgressBar percent None =
           js ''['' @ replicate (roundedCells percent) (of_char CHR ''#'')
             @ replicate (20 - roundedCells percent) (of_char CHR ''-'') @ js '']''"
    using buildProgressBar_20 [OF assms] by (simp only: roundedCells_eq)
  have b: "roundedCells percent \<le> 20"
    using assms by (simp add: roundedCells_eq)
  from a b have "length (buildProgressBar percent None) = 22"
    by (simp add: js_def)
  with a b show ?thesis
    by (simp only: bar_0 bar_50 bar_100 simp_thms)
qed

theorem progress_bar_rendering_witness:
  "(50::nat) \<le> 100
   \<and> roundedCells 50 = 10
   \<and> buildProgressBar 50 None = js ''['' @ replicate 10 (of_char CHR ''#'')
        @ replicate 10 (of_char CHR ''-'') @ js '']''
   \<and> length (buildProgressBar 50 None) = 22"
proof -
  have a: "(50::nat) \<le> 100" by simp
  have b: "roundedCells 50 = 10" by (simp add: roundedCells_eq)
  note t = progress_bar_rendering [OF a]
  from t have "buildProgressBar 50 None = js ''['' @ replicate (roundedCells 50) (of_char CHR ''#'')
        @ replicate (20 - roundedCells 50) (of_char CHR ''-'') @ js '']''"
    by (rule conjunct1)
  then have c: "buildProgressBar 50 None = js ''['' @ replicate 10 (of_char CHR ''#'')
        @ replicate 10 (of_char CHR ''-'') @ js '']''"
    by (simp only: b) simp
  from t have d: "length (buildProgressBar 50 None) = 22"
    by (elim conjE)
  from a b c d show ?thesis
    by (intro conjI)
qed

end
